theory Spec2Isabelle
  imports Main "HOL-Library.Sublist" "HOL-Library.AList"
begin

section \<open>The credential pool manager of augment2api\<close>

text \<open>
  A shallow embedding of \<^verbatim>\<open>pkg/token/manager.go\<close> (package \<^verbatim>\<open>token\<close>), of the
  concurrency middleware that calls it, and of \<^verbatim>\<open>CheckTokenTenantURL\<close> (package
  \<^verbatim>\<open>api\<close>). Every Go function is a HOL function of the same name. What a Go function
  reads and writes outside its arguments (the Redis store, the clock, the lock registry,
  the logger, the random sources, the upstream HTTP service) is one explicit
  \<open>world\<close> value, passed in and returned updated. A Go result \<^verbatim>\<open>(T, error)\<close> is a sum
  \<open>error + T\<close>; a Go \<^verbatim>\<open>error\<close> alone is an \<open>option\<close>, \<open>None\<close> being \<^verbatim>\<open>nil\<close>.

  The model is sequential: one call runs against one world, and no other request handler
  or process changes the store or the locks while it runs.
\<close>

subsection \<open>Time\<close>

text \<open>
  A \<^verbatim>\<open>time.Time\<close> is the number of nanoseconds since Go's zero time
  (\<^verbatim>\<open>time.Time{}\<close>), a \<^verbatim>\<open>time.Duration\<close> is a number of nanoseconds in a signed
  64-bit integer. \<^verbatim>\<open>Time.Sub\<close> saturates at the largest and smallest duration, which
  is written out. One call of a function of this file sees one clock value
  (\<open>clock\<close> of the world): every \<^verbatim>\<open>time.Now()\<close> of the call reads it.
\<close>

type_synonym time = int
type_synonym duration = int

definition Second :: duration where
  "Second = 1000000000"

definition Minute :: duration where
  "Minute = 60 * Second"

definition Hour :: duration where
  "Hour = 60 * Minute"

definition maxDuration :: duration where
  "maxDuration = 2 ^ 63 - 1"

definition minDuration :: duration where
  "minDuration = - (2 ^ 63)"

definition time_zero :: time where
  "time_zero = 0"

definition time_Sub :: "time \<Rightarrow> time \<Rightarrow> duration" where
  "time_Sub t u =
     (if t - u > maxDuration then maxDuration
      else if t - u < minDuration then minDuration
      else t - u)"

definition time_Add :: "time \<Rightarrow> duration \<Rightarrow> time" where
  "time_Add t d = t + d"

definition time_After :: "time \<Rightarrow> time \<Rightarrow> bool" where
  "time_After t u = (u < t)"

subsection \<open>The shared state store\<close>

text \<open>
  Modelled from the spec: the Shared State Store, that is the functions
  \<^verbatim>\<open>RedisGet\<close>, \<^verbatim>\<open>RedisSet\<close>, \<^verbatim>\<open>RedisHGet\<close>, \<^verbatim>\<open>RedisHSet\<close> and \<^verbatim>\<open>RedisKeys\<close>
  of package \<^verbatim>\<open>config\<close>, whose source is not part of the repository files at hand.
  The spec lists them as \<^verbatim>\<open>get(key)\<close>, \<^verbatim>\<open>set(key, value, ttl)\<close>,
  \<^verbatim>\<open>hashGet(key, field)\<close>, \<^verbatim>\<open>hashSet(key, field, value)\<close> and \<^verbatim>\<open>keys(prefix)\<close>.

  The store holds string entries (a value and the time-to-live it was written with) and
  hash entries (a field map), each as an association list in insertion order. A read of
  an absent key or field is an error (\<open>RedisNil\<close>), as the callers' comments say.
  Any operation can also fail for another reason (\<open>RedisFailure\<close>: the connection, a
  timeout): the fault fields say for which keys it does. A failed write changes nothing.
  On an error the Go functions return the empty string beside it.
\<close>

datatype redis_error = RedisNil | RedisFailure

record store =
  strings :: "(string \<times> string \<times> duration) list"
  hashes :: "(string \<times> (string \<times> string) list) list"
  get_fault :: "string \<Rightarrow> bool"
  set_fault :: "string \<Rightarrow> bool"
  hget_fault :: "string \<Rightarrow> string \<Rightarrow> bool"
  hset_fault :: "string \<Rightarrow> string \<Rightarrow> bool"
  keys_fault :: bool

definition RedisGet :: "store \<Rightarrow> string \<Rightarrow> redis_error + string" where
  "RedisGet st key =
     (if get_fault st key then Inl RedisFailure
      else case map_of (strings st) key of
             None \<Rightarrow> Inl RedisNil
           | Some (v, ttl) \<Rightarrow> Inr v)"

definition RedisSet :: "store \<Rightarrow> string \<Rightarrow> string \<Rightarrow> duration \<Rightarrow> redis_error option \<times> store" where
  "RedisSet st key v ttl =
     (if set_fault st key then (Some RedisFailure, st)
      else (None, st\<lparr>strings := AList.update key (v, ttl) (strings st)\<rparr>))"

definition RedisHGet :: "store \<Rightarrow> string \<Rightarrow> string \<Rightarrow> redis_error + string" where
  "RedisHGet st key field =
     (if hget_fault st key field then Inl RedisFailure
      else case map_of (hashes st) key of
             None \<Rightarrow> Inl RedisNil
           | Some h \<Rightarrow> (case map_of h field of None \<Rightarrow> Inl RedisNil | Some v \<Rightarrow> Inr v))"

definition RedisHSet :: "store \<Rightarrow> string \<Rightarrow> string \<Rightarrow> string \<Rightarrow> redis_error option \<times> store" where
  "RedisHSet st key field v =
     (if hset_fault st key field then (Some RedisFailure, st)
      else (None, st\<lparr>hashes :=
              AList.update key
                (AList.update field v (case map_of (hashes st) key of None \<Rightarrow> [] | Some h \<Rightarrow> h))
                (hashes st)\<rparr>))"

text \<open>
  \<^verbatim>\<open>RedisKeys(p + "*")\<close>: every key of the store, of either kind, that begins with
  \<open>p\<close>, each once. The repository calls it with the pattern \<^verbatim>\<open>"token:*"\<close> only.
\<close>

definition RedisKeys :: "store \<Rightarrow> string \<Rightarrow> redis_error + string list" where
  "RedisKeys st p =
     (if keys_fault st then Inl RedisFailure
      else Inr (filter (prefix p) (remdups (map fst (hashes st) @ map fst (strings st)))))"

text \<open>The value a Go caller holds after \<^verbatim>\<open>v, err := config.RedisHGet(...)\<close>.\<close>

definition go_value :: "redis_error + string \<Rightarrow> string" where
  "go_value r = (case r of Inl e \<Rightarrow> [] | Inr v \<Rightarrow> v)"

subsection \<open>Status records and their JSON encoding\<close>

record TokenRequestStatus =
  InProgress :: bool
  LastRequestAt :: time

record TokenCoolStatus =
  InCool :: bool
  CoolEnd :: time

text \<open>
  \<^verbatim>\<open>json.Marshal\<close> and \<^verbatim>\<open>json.Unmarshal\<close> of the two status records are parameters
  of the model: the functions below take the codec as their first argument, and every
  theorem holds for every codec. Both directions can fail (\<open>None\<close>).
\<close>

record json_codec =
  marshal_request :: "TokenRequestStatus \<Rightarrow> string option"
  unmarshal_request :: "string \<Rightarrow> TokenRequestStatus option"
  marshal_cool :: "TokenCoolStatus \<Rightarrow> string option"
  unmarshal_cool :: "string \<Rightarrow> TokenCoolStatus option"

datatype error = StoreError redis_error | JsonError

subsection \<open>The world\<close>

text \<open>
  The log holds what the functions write with \<^verbatim>\<open>logger.Log\<close> and \<^verbatim>\<open>fmt.Printf\<close>;
  an entry names the call site and carries the fields logged there.
  \<open>tokenLocks\<close> is the global lock map: a token has an entry once \<^verbatim>\<open>GetTokenLock\<close>
  created its mutex, and the entry says whether the mutex is locked. A
  \<^verbatim>\<open>*sync.Mutex\<close> held elsewhere (in the request context) is the token it belongs to.
  \<open>uuid_gen\<close> and \<open>rand_gen\<close> are the sequences of values that \<^verbatim>\<open>uuid.New()\<close> and the
  random generator behind \<^verbatim>\<open>rand.Intn\<close> produce, \<open>uuid_used\<close> and \<open>rand_used\<close> count
  how many were taken. \<open>upstream\<close> is the reply of the upstream service to a probe of
  a URL.
\<close>

datatype log_entry =
    WarnMaxRetries string int
  | ErrorSetCoolFailed string error
  | InfoCooled string
  | WarnNoOtherToken string
  | ErrorSetStatusFailed string error
  | InfoSwitched string string int
  | InfoTokenUsed string string
  | PrintRequestFailed string
  | PrintDisableFailed string
  | PrintActivateFailed string
  | InfoDisabled401 string string
  | InfoDisabledSubscription string string
  | InfoTenantUpdated string string

datatype http_reply =
    RequestNotBuilt
  | TransportError
  | Response nat string bool

record world =
  redis :: store
  clock :: time
  tokenLocks :: "string \<Rightarrow> bool option"
  logs :: "log_entry list"
  uuid_gen :: "nat \<Rightarrow> string"
  uuid_used :: nat
  rand_gen :: "nat \<Rightarrow> nat"
  rand_used :: nat
  upstream :: "string \<Rightarrow> http_reply"

definition log_write :: "log_entry \<Rightarrow> world \<Rightarrow> world" where
  "log_write e w = w\<lparr>logs := logs w @ [e]\<rparr>"

definition uuid_New :: "world \<Rightarrow> string \<times> world" where
  "uuid_New w = (uuid_gen w (uuid_used w), w\<lparr>uuid_used := Suc (uuid_used w)\<rparr>)"

text \<open>\<^verbatim>\<open>rand.Intn(n)\<close> for \<open>0 < n\<close> (it panics otherwise; every call below is guarded).\<close>

definition rand_Intn :: "nat \<Rightarrow> world \<Rightarrow> nat \<times> world" where
  "rand_Intn n w = (rand_gen w (rand_used w) mod n, w\<lparr>rand_used := Suc (rand_used w)\<rparr>)"

subsection \<open>Request status and cooldown status\<close>

definition SetTokenRequestStatus ::
  "json_codec \<Rightarrow> string \<Rightarrow> TokenRequestStatus \<Rightarrow> world \<Rightarrow> error option \<times> world" where
  "SetTokenRequestStatus J token status w =
     (let key = ''token_status:'' @ token in
      case marshal_request J status of
        None \<Rightarrow> (Some JsonError, w)
      | Some statusJSON \<Rightarrow>
          (case RedisSet (redis w) key statusJSON Hour of
             (None, st) \<Rightarrow> (None, w\<lparr>redis := st\<rparr>)
           | (Some e, st) \<Rightarrow> (Some (StoreError e), w\<lparr>redis := st\<rparr>)))"

definition GetTokenRequestStatus ::
  "json_codec \<Rightarrow> world \<Rightarrow> string \<Rightarrow> error + TokenRequestStatus" where
  "GetTokenRequestStatus J w token =
     (let key = ''token_status:'' @ token in
      case RedisGet (redis w) key of
        Inl e \<Rightarrow> Inr \<lparr>InProgress = False, LastRequestAt = time_zero\<rparr>
      | Inr statusJSON \<Rightarrow>
          (case unmarshal_request J statusJSON of
             None \<Rightarrow> Inl JsonError
           | Some status \<Rightarrow> Inr status))"

definition SetTokenCoolStatus ::
  "json_codec \<Rightarrow> string \<Rightarrow> duration \<Rightarrow> world \<Rightarrow> error option \<times> world" where
  "SetTokenCoolStatus J token d w =
     (let key = ''token_cool_status:'' @ token;
          coolStatus = \<lparr>InCool = True, CoolEnd = time_Add (clock w) d\<rparr> in
      case marshal_cool J coolStatus of
        None \<Rightarrow> (Some JsonError, w)
      | Some coolStatusJSON \<Rightarrow>
          (case RedisSet (redis w) key coolStatusJSON d of
             (None, st) \<Rightarrow> (None, w\<lparr>redis := st\<rparr>)
           | (Some e, st) \<Rightarrow> (Some (StoreError e), w\<lparr>redis := st\<rparr>)))"

definition GetTokenCoolStatus ::
  "json_codec \<Rightarrow> world \<Rightarrow> string \<Rightarrow> error + TokenCoolStatus" where
  "GetTokenCoolStatus J w token =
     (let key = ''token_cool_status:'' @ token in
      case RedisGet (redis w) key of
        Inl e \<Rightarrow> Inr \<lparr>InCool = False, CoolEnd = time_zero\<rparr>
      | Inr coolStatusJSON \<Rightarrow>
          (case unmarshal_cool J coolStatusJSON of
             None \<Rightarrow> Inl JsonError
           | Some coolStatus \<Rightarrow>
               Inr (if InCool coolStatus \<and> time_After (clock w) (CoolEnd coolStatus)
                    then coolStatus\<lparr>InCool := False\<rparr>
                    else coolStatus)))"

subsection \<open>Usage counters\<close>

text \<open>
  \<^verbatim>\<open>strconv.Atoi\<close> of the Go library, on a 64-bit platform: an optional sign, then
  one or more decimal digits. It returns the value and no error; or 0 and a syntax
  error; or, when the value does not fit 64 bits, the nearest bound and a range error.
  The second component says whether the error is \<^verbatim>\<open>nil\<close>.
\<close>

definition is_digit :: "char \<Rightarrow> bool" where
  "is_digit c = (48 \<le> (of_char c :: nat) \<and> (of_char c :: nat) \<le> 57)"

definition digits_value :: "string \<Rightarrow> int" where
  "digits_value ds = foldl (\<lambda>n c. 10 * n + (int (of_char c) - 48)) 0 ds"

definition strconv_Atoi :: "string \<Rightarrow> int \<times> bool" where
  "strconv_Atoi s =
     (let neg = (s \<noteq> [] \<and> hd s = CHR ''-'');
          ds = (if s \<noteq> [] \<and> (hd s = CHR ''-'' \<or> hd s = CHR ''+'') then tl s else s) in
      if ds = [] \<or> \<not> list_all is_digit ds then (0, False)
      else let v = (if neg then - digits_value ds else digits_value ds) in
        if v > 2 ^ 63 - 1 then (2 ^ 63 - 1, False)
        else if v < - (2 ^ 63) then (- (2 ^ 63), False)
        else (v, True))"

text \<open>
  The two getters of package \<^verbatim>\<open>token\<close> drop the error of \<^verbatim>\<open>strconv.Atoi\<close> and
  return its value.
\<close>

definition getTokenChatUsageCount :: "world \<Rightarrow> string \<Rightarrow> int" where
  "getTokenChatUsageCount w token =
     (let countKey = ''token_usage_chat:'' @ token in
      case RedisGet (redis w) countKey of
        Inl e \<Rightarrow> 0
      | Inr count \<Rightarrow> fst (strconv_Atoi count))"

definition getTokenAgentUsageCount :: "world \<Rightarrow> string \<Rightarrow> int" where
  "getTokenAgentUsageCount w token =
     (let countKey = ''token_usage_agent:'' @ token in
      case RedisGet (redis w) countKey of
        Inl e \<Rightarrow> 0
      | Inr count \<Rightarrow> fst (strconv_Atoi count))"

subsection \<open>The selection algorithm\<close>

text \<open>
  \<^verbatim>\<open>GetAvailableToken\<close> and \<^verbatim>\<open>GetNextAvailableToken\<close> are the same text in the source
  but for one test, \<^verbatim>\<open>if token == excludeToken { continue }\<close>, so they share the loop
  body \<open>loop_body\<close> and the function \<open>select_token\<close>, whose argument \<open>exclude\<close> is
  \<open>None\<close> for the first and \<open>Some excludeToken\<close> for the second.

  The three parallel slices of the source (tokens, tenant URLs, session ids), always
  appended to together and indexed together, are one list of triples.

  The loop body is the source's, test by test; a \<^verbatim>\<open>continue\<close> returns the state as
  it is. \<open>session_id_of\<close> is the reading of the session id in the loop body: a
  missing session id is replaced by a fresh UUID, which is written to the store; the
  error of that write is dropped.
\<close>

definition session_id_of :: "string \<Rightarrow> world \<Rightarrow> string \<times> world" where
  "session_id_of key w =
     (case RedisHGet (redis w) key ''session_id'' of
        Inr sessionID \<Rightarrow> (sessionID, w)
      | Inl e \<Rightarrow>
          (let (sessionID, w') = uuid_New w in
           (sessionID, w'\<lparr>redis := snd (RedisHSet (redis w') key ''session_id'' sessionID)\<rparr>)))"

type_synonym entry = "string \<times> string \<times> string"

type_synonym loop_state = "world \<times> entry list \<times> entry list"

definition loop_body :: "json_codec \<Rightarrow> string option \<Rightarrow> string \<Rightarrow> loop_state \<Rightarrow> loop_state" where
  "loop_body J exclude key acc =
     (case acc of (w, availableTokens, cooldownTokens) \<Rightarrow>
      if RedisHGet (redis w) key ''status'' = Inr ''disabled'' then acc
      else let token = drop 6 key in
      if exclude = Some token then acc
      else case GetTokenRequestStatus J w token of
        Inl e \<Rightarrow> acc
      | Inr requestStatus \<Rightarrow>
          if InProgress requestStatus then acc
          else if time_Sub (clock w) (LastRequestAt requestStatus) < 3 * Second then acc
          else let chatUsageCount = getTokenChatUsageCount w token;
                   agentUsageCount = getTokenAgentUsageCount w token in
          if chatUsageCount \<ge> 3000 then acc
          else if agentUsageCount \<ge> 50 then acc
          else case RedisHGet (redis w) key ''tenant_url'' of
            Inl e \<Rightarrow> acc
          | Inr tenantURL \<Rightarrow>
              let (sessionID, w1) = session_id_of key w in
              case GetTokenCoolStatus J w1 token of
                Inl e \<Rightarrow> (w1, availableTokens, cooldownTokens)
              | Inr coolStatus \<Rightarrow>
                  if InCool coolStatus
                  then (w1, availableTokens, cooldownTokens @ [(token, tenantURL, sessionID)])
                  else (w1, availableTokens @ [(token, tenantURL, sessionID)], cooldownTokens))"

text \<open>
  The loop over the keys. \<^verbatim>\<open>key[6:]\<close> panics on a key shorter than six bytes: the
  loop then stops with \<open>Inl\<close> and the world as it was at that moment.
\<close>

fun scan_keys :: "json_codec \<Rightarrow> string option \<Rightarrow> string list \<Rightarrow> loop_state \<Rightarrow> world + loop_state" where
  "scan_keys J exclude [] acc = Inr acc"
| "scan_keys J exclude (key # keys) acc =
     (if length key < 6
         \<and> RedisHGet (redis (fst acc)) key ''status'' \<noteq> Inr ''disabled''
      then Inl (fst acc)
      else scan_keys J exclude keys (loop_body J exclude key acc))"

text \<open>
  Which \<^verbatim>\<open>return\<close> of the source a call took: the first (\<open>NoToken\<close>), one of the
  two that pick an entry (\<open>Chosen\<close>), the last (\<open>NoAvailableToken\<close>); or none,
  because the loop panicked (\<open>SlicePanic\<close>). \<open>returned\<close> gives the three strings that
  the Go caller receives.
\<close>

datatype selection =
    NoToken
  | NoAvailableToken
  | Chosen string string string
  | SlicePanic

definition pick_entry :: "entry \<Rightarrow> selection" where
  "pick_entry e = (case e of (token, tenantURL, sessionID) \<Rightarrow> Chosen token tenantURL sessionID)"

definition select_token :: "json_codec \<Rightarrow> string option \<Rightarrow> world \<Rightarrow> selection \<times> world" where
  "select_token J exclude w =
     (case RedisKeys (redis w) ''token:'' of
        Inl e \<Rightarrow> (NoToken, w)
      | Inr keys \<Rightarrow>
          if length keys = 0 then (NoToken, w)
          else case scan_keys J exclude keys (w, [], []) of
            Inl w1 \<Rightarrow> (SlicePanic, w1)
          | Inr (w1, availableTokens, cooldownTokens) \<Rightarrow>
              if length availableTokens > 0 then
                (let (randomIndex, w2) = rand_Intn (length availableTokens) w1 in
                 (pick_entry (availableTokens ! randomIndex), w2))
              else if length cooldownTokens > 0 then
                (let (randomIndex, w2) = rand_Intn (length cooldownTokens) w1 in
                 (pick_entry (cooldownTokens ! randomIndex), w2))
              else (NoAvailableToken, w1))"

fun returned :: "selection \<Rightarrow> entry option" where
  "returned NoToken = Some (''No token'', [], [])"
| "returned NoAvailableToken = Some (''No available token'', [], [])"
| "returned (Chosen token tenantURL sessionID) = Some (token, tenantURL, sessionID)"
| "returned SlicePanic = None"

definition GetAvailableToken :: "json_codec \<Rightarrow> world \<Rightarrow> entry option \<times> world" where
  "GetAvailableToken J w = (let (r, w') = select_token J None w in (returned r, w'))"

definition GetNextAvailableToken :: "json_codec \<Rightarrow> string \<Rightarrow> world \<Rightarrow> entry option \<times> world" where
  "GetNextAvailableToken J excludeToken w =
     (let (r, w') = select_token J (Some excludeToken) w in (returned r, w'))"

text \<open>
  The callers (the middleware and \<^verbatim>\<open>SwitchTokenAndRetry\<close>) compare the first string
  returned with the two sentinels and take it for a credential when it is neither:
  \<open>credential_of\<close> is the credential that a caller finds in a result.
\<close>

fun credential_of :: "entry option \<Rightarrow> string option" where
  "credential_of None = None"
| "credential_of (Some (token, tenantURL, sessionID)) =
     (if token = ''No token'' \<or> token = ''No available token'' then None else Some token)"

subsection \<open>The lock registry and the request context\<close>

text \<open>
  \<^verbatim>\<open>GetTokenLock\<close> returns the mutex of a token and creates it, unlocked, at the first
  request for it. \<^verbatim>\<open>Lock\<close> on a locked mutex waits; in a sequential run nobody
  releases it, so the call does not return (\<open>None\<close>). \<^verbatim>\<open>Unlock\<close> on a mutex that is
  not locked is a fatal runtime error (\<open>None\<close>).
\<close>

definition GetTokenLock :: "string \<Rightarrow> world \<Rightarrow> string \<times> world" where
  "GetTokenLock token w =
     (case tokenLocks w token of
        Some b \<Rightarrow> (token, w)
      | None \<Rightarrow> (token, w\<lparr>tokenLocks := (tokenLocks w)(token \<mapsto> False)\<rparr>))"

definition mutex_Lock :: "string \<Rightarrow> world \<Rightarrow> world option" where
  "mutex_Lock l w =
     (if tokenLocks w l = Some True then None
      else Some (w\<lparr>tokenLocks := (tokenLocks w)(l \<mapsto> True)\<rparr>))"

definition mutex_Unlock :: "string \<Rightarrow> world \<Rightarrow> world option" where
  "mutex_Unlock l w =
     (if tokenLocks w l = Some True
      then Some (w\<lparr>tokenLocks := (tokenLocks w)(l \<mapsto> False)\<rparr>)
      else None)"

text \<open>
  The values of a \<^verbatim>\<open>gin.Context\<close> are of type \<^verbatim>\<open>interface{}\<close>; the type assertions
  of the source are case distinctions on \<open>ctxval\<close>.
\<close>

datatype ctxval = VString string | VInt int | VLock string | VOther

type_synonym gin_context = "string \<Rightarrow> ctxval option"

text \<open>
  How a call ends: it returns a value (\<open>Done\<close>), it waits for a mutex for ever
  (\<open>Blocked\<close>), or the goroutine dies in a panic or a fatal error (\<open>Crashed\<close>); each
  with the world at that moment.
\<close>

datatype 'a outcome = Done 'a world | Blocked world | Crashed world

fun final_world :: "'a outcome \<Rightarrow> world" where
  "final_world (Done x w) = w"
| "final_world (Blocked w) = w"
| "final_world (Crashed w) = w"

text \<open>The value a call returned, if it returned.\<close>

fun result :: "'a outcome \<Rightarrow> 'a option" where
  "result (Done x w) = Some x"
| "result (Blocked w) = None"
| "result (Crashed w) = None"

subsection \<open>The retry and switch controller\<close>

text \<open>
  \<^verbatim>\<open>SwitchTokenAndRetry(c, maxRetries)\<close>. Go's \<^verbatim>\<open>int\<close> is \<open>int\<close> here: the only
  arithmetic is \<^verbatim>\<open>retryCount+1\<close>, under \<^verbatim>\<open>retryCount < maxRetries\<close>, which cannot
  overflow. \<open>retryCount_of\<close> is the reading of \<^verbatim>\<open>retry_count\<close> from the context: 0
  when it is absent or not an \<^verbatim>\<open>int\<close>. The result is the boolean returned and the
  context after the call.
\<close>

definition retryCount_of :: "gin_context \<Rightarrow> int" where
  "retryCount_of c = (case c ''retry_count'' of Some (VInt n) \<Rightarrow> n | _ \<Rightarrow> 0)"

text \<open>
  The function in four parts, in the order of the source. \<open>cool_current\<close>: the
  current token is put into a cooldown of five minutes, and the result of that write is
  logged, as an error or as an information.
\<close>

definition cool_current :: "json_codec \<Rightarrow> string \<Rightarrow> world \<Rightarrow> world" where
  "cool_current J currentToken w =
     (case SetTokenCoolStatus J currentToken (5 * Minute) w of
        (Some e, w1) \<Rightarrow> log_write (ErrorSetCoolFailed currentToken e) w1
      | (None, w1) \<Rightarrow> log_write (InfoCooled currentToken) w1)"

text \<open>
  \<open>release_current\<close>: when the context holds a mutex under \<^verbatim>\<open>token_lock\<close>, the request
  status of the current token is set to finished (the error of that write is dropped) and
  the mutex is unlocked. \<open>Inl\<close> is the fatal error of unlocking a mutex that is not
  locked.
\<close>

definition release_current :: "json_codec \<Rightarrow> gin_context \<Rightarrow> string \<Rightarrow> world \<Rightarrow> world + world" where
  "release_current J c currentToken w =
     (case c ''token_lock'' of
        Some (VLock currentLock) \<Rightarrow>
          (let w1 = snd (SetTokenRequestStatus J currentToken
                           \<lparr>InProgress = False, LastRequestAt = clock w\<rparr> w) in
           case mutex_Unlock currentLock w1 of
             None \<Rightarrow> Inl w1
           | Some w2 \<Rightarrow> Inr w2)
      | _ \<Rightarrow> Inr w)"

text \<open>
  \<open>acquire_next\<close>: the mutex of the new token is taken, its request status is set to
  in progress, and the context is updated.
\<close>

definition acquire_next ::
  "json_codec \<Rightarrow> gin_context \<Rightarrow> string \<Rightarrow> int \<Rightarrow> entry \<Rightarrow> world \<Rightarrow> (bool \<times> gin_context) outcome" where
  "acquire_next J c currentToken retryCount next w =
     (case next of (nextToken, nextTenantURL, nextSessionID) \<Rightarrow>
      let (newLock, w1) = GetTokenLock nextToken w in
      case mutex_Lock newLock w1 of
        None \<Rightarrow> Blocked w1
      | Some w2 \<Rightarrow>
          (case SetTokenRequestStatus J nextToken
                  \<lparr>InProgress = True, LastRequestAt = clock w2\<rparr> w2 of
             (Some e, w3) \<Rightarrow>
               (case mutex_Unlock newLock w3 of
                  None \<Rightarrow> Crashed w3
                | Some w4 \<Rightarrow> Done (False, c) (log_write (ErrorSetStatusFailed nextToken e) w4))
           | (None, w3) \<Rightarrow>
               Done (True,
                     c(''token'' \<mapsto> VString nextToken,
                       ''tenant_url'' \<mapsto> VString nextTenantURL,
                       ''session_id'' \<mapsto> VString nextSessionID,
                       ''token_lock'' \<mapsto> VLock newLock,
                       ''retry_count'' \<mapsto> VInt (retryCount + 1)))
                    (log_write (InfoSwitched currentToken nextToken (retryCount + 1)) w3)))"

definition SwitchTokenAndRetry ::
  "json_codec \<Rightarrow> gin_context \<Rightarrow> int \<Rightarrow> world \<Rightarrow> (bool \<times> gin_context) outcome" where
  "SwitchTokenAndRetry J c maxRetries w =
     (case c ''token'' of
        None \<Rightarrow> Done (False, c) w
      | Some (VInt i) \<Rightarrow> Done (False, c) w
      | Some (VLock l) \<Rightarrow> Done (False, c) w
      | Some VOther \<Rightarrow> Done (False, c) w
      | Some (VString currentToken) \<Rightarrow>
          let retryCount = retryCount_of c in
          if retryCount \<ge> maxRetries then
            Done (False, c) (log_write (WarnMaxRetries currentToken retryCount) w)
          else
            case GetNextAvailableToken J currentToken (cool_current J currentToken w) of
              (None, w1) \<Rightarrow> Crashed w1
            | (Some (nextToken, nextTenantURL, nextSessionID), w1) \<Rightarrow>
                if nextToken = ''No token'' \<or> nextToken = ''No available token'' then
                  Done (False, c) (log_write (WarnNoOtherToken currentToken) w1)
                else
                  case release_current J c currentToken w1 of
                    Inl w2 \<Rightarrow> Crashed w2
                  | Inr w2 \<Rightarrow>
                      acquire_next J c currentToken retryCount
                        (nextToken, nextTenantURL, nextSessionID) w2)"

subsection \<open>The concurrency middleware\<close>

text \<open>
  The fields of \<^verbatim>\<open>config.AppConfig\<close> that the modelled functions read. The middleware
  ends by answering the request itself (\<open>Aborted\<close>, with the HTTP status and which of
  its three messages) or by handing the request on with \<^verbatim>\<open>c.Next()\<close> (\<open>Next\<close>, with
  the context the next handler sees).
\<close>

record app_config =
  CodingMode :: string
  CodingToken :: string
  TenantURL :: string
  RemoveFree :: string




subsection \<open>The tenant endpoint validator\<close>

text \<open>
  \<^verbatim>\<open>CheckTokenTenantURL(token, sessionID)\<close>. The probe request is a constant but for
  its headers, so \<^verbatim>\<open>json.Marshal\<close> of it does not fail and that return is left out.
  The reply to the probe of a URL is \<open>upstream\<close> of the world:
  \<^verbatim>\<open>http.NewRequest\<close> failed (\<open>RequestNotBuilt\<close>), \<^verbatim>\<open>client.Do\<close> failed
  (\<open>TransportError\<close>), or a response, given by its status code and by what the one
  \<^verbatim>\<open>resp.Body.Read(buf)\<close> of the source yields: the bytes and whether the read
  reported an error. The buffer has 1024 bytes, so at most that many are looked at.
  \<^verbatim>\<open>strings.Contains\<close> and \<^verbatim>\<open>bytes.Contains\<close> are \<open>sublist\<close>.
\<close>

datatype check_error = ErrTokenDisabled | ErrNoValidTenant

function decimal :: "nat \<Rightarrow> string" where
  "decimal n = (if n < 10 then [char_of (48 + n)] else decimal (n div 10) @ [char_of (48 + n mod 10)])"
  by pat_completeness auto
termination
  by (relation "measure id") auto

definition d_url :: "nat \<Rightarrow> string" where
  "d_url i = ''https://d'' @ decimal i @ ''.api.augmentcode.com/''"

definition i_url :: "nat \<Rightarrow> string" where
  "i_url i = ''https://i'' @ decimal i @ ''.api.augmentcode.com/''"

text \<open>
  One step of the two loops that add the fixed addresses: \<open>tenantURLsToTest\<close> and the
  set \<open>uniqueTenantURLs\<close> of the source, the set kept as the list of its members.
\<close>

definition add_url :: "string list \<times> string list \<Rightarrow> string \<Rightarrow> string list \<times> string list" where
  "add_url acc newTenantURL =
     (case acc of (tenantURLsToTest, uniqueTenantURLs) \<Rightarrow>
      if newTenantURL \<notin> set uniqueTenantURLs
      then (tenantURLsToTest @ [newTenantURL], uniqueTenantURLs @ [newTenantURL])
      else acc)"

definition candidate_urls :: "redis_error + string \<Rightarrow> string list" where
  "candidate_urls r =
     (let currentTenantURL = go_value r;
          tenantURLsToTest = (if isl r \<or> currentTenantURL = [] then [] else [currentTenantURL]);
          uniqueTenantURLs = (if currentTenantURL \<noteq> [] then [currentTenantURL] else []);
          acc1 = foldl add_url (tenantURLsToTest, uniqueTenantURLs) (map d_url (rev [0..<21]));
          acc2 = foldl add_url acc1 (map i_url (rev [0..<6]))
      in fst acc2)"

definition subscription_inactive :: "string \<Rightarrow> bool" where
  "subscription_inactive responseContent =
     ((sublist ''Your subscription for account'' responseContent \<and>
       (sublist ''is inactive'' responseContent \<or>
        sublist ''has been suspended. To continue, [purchase a subscription](https://app.augmentcode.com/account)''
          responseContent)) \<or>
      sublist ''You are out of user messages for account'' responseContent)"

text \<open>
  The loop over the addresses to test. Each branch ends as the source does: with a
  \<^verbatim>\<open>return\<close> of the function, or with the next address.
\<close>

fun probe_urls ::
  "app_config \<Rightarrow> string \<Rightarrow> string \<Rightarrow> string \<Rightarrow> string list \<Rightarrow> world \<Rightarrow> (check_error + string) \<times> world" where
  "probe_urls cfg tokenKey token sessionID [] w = (Inl ErrNoValidTenant, w)"
| "probe_urls cfg tokenKey token sessionID (tenantURL # rest) w =
     (case upstream w (tenantURL @ ''chat-stream'') of
        RequestNotBuilt \<Rightarrow> probe_urls cfg tokenKey token sessionID rest w
      | TransportError \<Rightarrow>
          probe_urls cfg tokenKey token sessionID rest (log_write (PrintRequestFailed tenantURL) w)
      | Response statusCode body readErr \<Rightarrow>
          let buf = take 1024 body; n = length buf in
          if statusCode = 401 then
            (if \<not> readErr \<and> n > 0 \<and> sublist ''Invalid token'' buf then
               (case RedisHSet (redis w) tokenKey ''status'' ''disabled'' of
                  (err, st) \<Rightarrow>
                    let w1 = w\<lparr>redis := st\<rparr>;
                        w2 = (if err \<noteq> None then log_write (PrintDisableFailed token) w1 else w1)
                    in (Inl ErrTokenDisabled, log_write (InfoDisabled401 token buf) w2))
             else probe_urls cfg tokenKey token sessionID rest w)
          else if statusCode = 200 \<or> statusCode = 402 then
            (if \<not> readErr \<and> n > 0 then
               (if RemoveFree cfg = ''true'' \<and> subscription_inactive buf then
                  (case RedisHSet (redis w) tokenKey ''status'' ''disabled'' of
                     (err, st) \<Rightarrow>
                       let w1 = w\<lparr>redis := st\<rparr>;
                           w2 = (if err \<noteq> None then log_write (PrintDisableFailed token) w1 else w1)
                       in (Inl ErrTokenDisabled, log_write (InfoDisabledSubscription token buf) w2))
                else
                  (case RedisHSet (redis w) tokenKey ''tenant_url'' tenantURL of
                     (Some e, st) \<Rightarrow> probe_urls cfg tokenKey token sessionID rest (w\<lparr>redis := st\<rparr>)
                   | (None, st) \<Rightarrow>
                       (case RedisHSet st tokenKey ''status'' ''active'' of
                          (err, st') \<Rightarrow>
                            let w1 = w\<lparr>redis := st'\<rparr>;
                                w2 = (if err \<noteq> None then log_write (PrintActivateFailed token) w1 else w1)
                            in (Inr tenantURL, log_write (InfoTenantUpdated token tenantURL) w2))))
             else probe_urls cfg tokenKey token sessionID rest w)
          else probe_urls cfg tokenKey token sessionID rest w)"

definition CheckTokenTenantURL ::
  "app_config \<Rightarrow> string \<Rightarrow> string \<Rightarrow> world \<Rightarrow> (check_error + string) \<times> world" where
  "CheckTokenTenantURL cfg token sessionID w =
     (let tokenKey = ''token:'' @ token in
      probe_urls cfg tokenKey token sessionID
        (candidate_urls (RedisHGet (redis w) tokenKey ''tenant_url'')) w)"

subsection \<open>The pool and the eligibility filter, as the specification words them\<close>

text \<open>
  The credential pool: the keys \<^verbatim>\<open>token:<id>\<close> of the store, whether or not the store
  can be read at the moment.
\<close>

definition pool :: "world \<Rightarrow> string list" where
  "pool w = filter (prefix ''token:'')
              (remdups (map fst (hashes (redis w)) @ map fst (strings (redis w))))"

text \<open>
  The eligibility filter of the specification, steps 1 to 6, for the credential stored
  under \<open>key\<close>: not disabled, not the excluded credential, no request in progress, last
  request at least three seconds ago, both usage counters under their quota, a tenant
  endpoint on record, and a cooldown status that can be read.
\<close>

definition eligible :: "json_codec \<Rightarrow> string option \<Rightarrow> world \<Rightarrow> string \<Rightarrow> bool" where
  "eligible J exclude w key =
     (RedisHGet (redis w) key ''status'' \<noteq> Inr ''disabled'' \<and>
      exclude \<noteq> Some (drop 6 key) \<and>
      (case GetTokenRequestStatus J w (drop 6 key) of
         Inl e \<Rightarrow> False
       | Inr rs \<Rightarrow> \<not> InProgress rs \<and> \<not> time_Sub (clock w) (LastRequestAt rs) < 3 * Second) \<and>
      getTokenChatUsageCount w (drop 6 key) < 3000 \<and>
      getTokenAgentUsageCount w (drop 6 key) < 50 \<and>
      \<not> isl (RedisHGet (redis w) key ''tenant_url'') \<and>
      \<not> isl (GetTokenCoolStatus J w (drop 6 key)))"

text \<open>A credential is in cooldown when its cooldown status reads \<open>InCool = True\<close>.\<close>

definition cooling :: "json_codec \<Rightarrow> world \<Rightarrow> string \<Rightarrow> bool" where
  "cooling J w token =
     (case GetTokenCoolStatus J w token of Inl e \<Rightarrow> False | Inr cs \<Rightarrow> InCool cs)"

text \<open>
  What the loop of the selection leaves unchanged in the world: everything but the
  \<^verbatim>\<open>session_id\<close> fields of the hashes, the store's list of hash keys, and the count
  of UUIDs taken.
\<close>

definition same_reads :: "world \<Rightarrow> world \<Rightarrow> bool" where
  "same_reads w w' =
     (clock w' = clock w \<and> tokenLocks w' = tokenLocks w \<and> logs w' = logs w \<and>
      rand_gen w' = rand_gen w \<and> rand_used w' = rand_used w \<and>
      uuid_gen w' = uuid_gen w \<and> upstream w' = upstream w \<and>
      strings (redis w') = strings (redis w) \<and>
      get_fault (redis w') = get_fault (redis w) \<and>
      set_fault (redis w') = set_fault (redis w) \<and>
      hget_fault (redis w') = hget_fault (redis w) \<and>
      hset_fault (redis w') = hset_fault (redis w) \<and>
      keys_fault (redis w') = keys_fault (redis w) \<and>
      (\<forall>key field. field \<noteq> ''session_id'' \<longrightarrow>
         RedisHGet (redis w') key field = RedisHGet (redis w) key field))"

text \<open>The world without the cooldown record of a token.\<close>

definition forget_cool :: "string \<Rightarrow> world \<Rightarrow> world" where
  "forget_cool token w =
     w\<lparr>redis := (redis w)\<lparr>strings :=
          AList.delete (''token_cool_status:'' @ token) (strings (redis w))\<rparr>\<rparr>"

text \<open>
  The keys of the two partitions of the specification, in enumeration order, and what
  an entry made for a key holds beside its session id.
\<close>

definition avail_keys :: "json_codec \<Rightarrow> string option \<Rightarrow> world \<Rightarrow> string list \<Rightarrow> string list" where
  "avail_keys J exclude w keys =
     filter (\<lambda>k. eligible J exclude w k \<and> \<not> cooling J w (drop 6 k)) keys"

definition cool_keys :: "json_codec \<Rightarrow> string option \<Rightarrow> world \<Rightarrow> string list \<Rightarrow> string list" where
  "cool_keys J exclude w keys =
     filter (\<lambda>k. eligible J exclude w k \<and> cooling J w (drop 6 k)) keys"

definition entry_of :: "world \<Rightarrow> string \<Rightarrow> string \<times> string" where
  "entry_of w key = (drop 6 key, go_value (RedisHGet (redis w) key ''tenant_url''))"

definition fst2 :: "entry \<Rightarrow> string \<times> string" where
  "fst2 e = (fst e, fst (snd e))"

text \<open>
  The world with another list of string entries in its store, and when two worlds give
  the selection the same answers about every credential but the excluded one.
\<close>

definition with_strings :: "(string \<times> string \<times> duration) list \<Rightarrow> world \<Rightarrow> world" where
  "with_strings ss w = w\<lparr>redis := (redis w)\<lparr>strings := ss\<rparr>\<rparr>"

definition reads_agree :: "json_codec \<Rightarrow> string option \<Rightarrow> world \<Rightarrow> world \<Rightarrow> bool" where
  "reads_agree J exclude w v =
     (\<forall>t. exclude \<noteq> Some t \<longrightarrow>
        GetTokenRequestStatus J v t = GetTokenRequestStatus J w t \<and>
        getTokenChatUsageCount v t = getTokenChatUsageCount w t \<and>
        getTokenAgentUsageCount v t = getTokenAgentUsageCount w t \<and>
        cooling J v t = cooling J w t \<and>
        isl (GetTokenCoolStatus J v t) = isl (GetTokenCoolStatus J w t))"

text \<open>
  The cooldown entry of a token in the store is \<open>fst x\<close> (a value and its time-to-live,
  or nothing), and the log holds the entry \<open>snd x\<close>.
\<close>

definition cool_record :: "string \<Rightarrow> (string \<times> duration) option \<times> log_entry \<Rightarrow> world \<Rightarrow> bool" where
  "cool_record token x w =
     (map_of (strings (redis w)) (''token_cool_status:'' @ token) = fst x \<and>
      snd x \<in> set (logs w))"

text \<open>The value of a field of a hash in the store, read without the chance of a fault.\<close>

definition stored_field :: "store \<Rightarrow> string \<Rightarrow> string \<Rightarrow> string option" where
  "stored_field st key field =
     (case map_of (hashes st) key of None \<Rightarrow> None | Some h \<Rightarrow> map_of h field)"

subsection \<open>Example worlds\<close>

text \<open>
  A small codec and a pool of four credentials, on which the theorems below are
  instantiated: \<open>A\<close> is eligible and not in cooldown (its mutex is locked in the
  registry), \<open>B\<close> is eligible and in cooldown, \<open>C\<close> has used up its chat quota,
  \<open>D\<close> has no tenant endpoint. \<open>lone_world\<close> holds the credential \<open>A\<close> only; in
  \<open>outage_world\<close> the enumeration of the keys fails.
\<close>

definition demo_codec :: json_codec where
  "demo_codec =
     \<lparr>marshal_request = (\<lambda>rs. Some (if InProgress rs then ''busy'' else ''idle'')),
      unmarshal_request = (\<lambda>s. if s = ''busy'' then Some \<lparr>InProgress = True, LastRequestAt = 0\<rparr>
                                else if s = ''idle'' then Some \<lparr>InProgress = False, LastRequestAt = 0\<rparr>
                                else None),
      marshal_cool = (\<lambda>cs. Some (if InCool cs then ''cool'' else ''warm'')),
      unmarshal_cool = (\<lambda>s. if s = ''cool'' then Some \<lparr>InCool = True, CoolEnd = 900 * Second\<rparr>
                             else if s = ''expired'' then Some \<lparr>InCool = True, CoolEnd = 5 * Second\<rparr>
                             else None)\<rparr>"

definition demo_store :: store where
  "demo_store =
     \<lparr>strings = [(''token_cool_status:B'', ''cool'', 5 * Minute),
                 (''token_usage_chat:C'', ''3000'', 0)],
      hashes = [(''token:A'', [(''tenant_url'', ''https://d1.api.augmentcode.com/''),
                               (''session_id'', ''sa''), (''status'', ''active'')]),
                (''token:B'', [(''tenant_url'', ''https://d2.api.augmentcode.com/''),
                               (''session_id'', ''sb''), (''status'', ''active'')]),
                (''token:C'', [(''tenant_url'', ''https://d3.api.augmentcode.com/''),
                               (''session_id'', ''sc''), (''status'', ''active'')]),
                (''token:D'', [(''session_id'', ''sd''), (''status'', ''active'')])],
      get_fault = (\<lambda>k. False),
      set_fault = (\<lambda>k. False),
      hget_fault = (\<lambda>k f. False),
      hset_fault = (\<lambda>k f. False),
      keys_fault = False\<rparr>"

definition demo_world :: world where
  "demo_world =
     \<lparr>redis = demo_store,
      clock = 100 * Second,
      tokenLocks = [''A'' \<mapsto> True],
      logs = [],
      uuid_gen = (\<lambda>n. ''uuid''),
      uuid_used = 0,
      rand_gen = (\<lambda>n. n),
      rand_used = 0,
      upstream = (\<lambda>u. TransportError)\<rparr>"


definition lone_world :: world where
  "lone_world = demo_world\<lparr>redis := demo_store\<lparr>hashes := [hd (hashes demo_store)]\<rparr>\<rparr>"

definition outage_world :: world where
  "outage_world = demo_world\<lparr>redis := demo_store\<lparr>keys_fault := True\<rparr>\<rparr>"


text \<open>
  Further worlds: \<open>busy_world\<close> holds \<open>A\<close> alone with a request in progress;
  \<open>expired_world\<close> holds \<open>A\<close> alone with a cooldown record that ended 95 seconds ago;
  in \<open>blind_world\<close> every read of a string entry fails, and the entries of \<open>A\<close> would
  exclude it if they could be read; in \<open>readonly_world\<close> the write of the cooldown
  record of \<open>A\<close> fails; in \<open>silent_world\<close> every endpoint answers 200 with an empty
  body; in \<open>healthy_world\<close> the endpoint \<^verbatim>\<open>d20\<close> answers 200 with a body.
\<close>

definition demo_config :: app_config where
  "demo_config = \<lparr>CodingMode = ''false'', CodingToken = [], TenantURL = [], RemoveFree = ''true''\<rparr>"

definition demo_context :: gin_context where
  "demo_context = [''token'' \<mapsto> VString ''A'', ''token_lock'' \<mapsto> VLock ''A'',
                   ''retry_count'' \<mapsto> VInt 2]"

definition busy_world :: world where
  "busy_world = lone_world\<lparr>redis := (redis lone_world)\<lparr>strings := [(''token_status:A'', ''busy'', Hour)]\<rparr>\<rparr>"

definition expired_world :: world where
  "expired_world =
     lone_world\<lparr>redis := (redis lone_world)\<lparr>strings := [(''token_cool_status:A'', ''expired'', 5 * Minute)]\<rparr>\<rparr>"

definition blind_world :: world where
  "blind_world =
     lone_world\<lparr>redis := (redis lone_world)
       \<lparr>strings := [(''token_status:A'', ''busy'', Hour),
                    (''token_cool_status:A'', ''cool'', 5 * Minute),
                    (''token_usage_chat:A'', ''3000'', 0),
                    (''token_usage_agent:A'', ''50'', 0)],
        get_fault := (\<lambda>k. True)\<rparr>\<rparr>"

definition readonly_world :: world where
  "readonly_world = demo_world\<lparr>redis := demo_store\<lparr>set_fault := (\<lambda>k. k = ''token_cool_status:A'')\<rparr>\<rparr>"

definition silent_world :: world where
  "silent_world = demo_world\<lparr>upstream := (\<lambda>u. Response 200 [] False)\<rparr>"

definition healthy_world :: world where
  "healthy_world =
     demo_world\<lparr>upstream := (\<lambda>u. if u = ''https://d20.api.augmentcode.com/chat-stream''
                                  then Response 200 ''data: ok'' False else TransportError)\<rparr>"

section \<open>Properties\<close>

subsection \<open>What the selection loop leaves unchanged\<close>

lemma hget_after_hset:
  "field \<noteq> f \<Longrightarrow> RedisHGet (snd (RedisHSet st k f v)) key field = RedisHGet st key field"
  by (auto simp: RedisHGet_def RedisHSet_def update_conv' split: option.splits)

lemma hset_frame:
  "strings (snd (RedisHSet st k f v)) = strings st"
  "get_fault (snd (RedisHSet st k f v)) = get_fault st"
  "set_fault (snd (RedisHSet st k f v)) = set_fault st"
  "hget_fault (snd (RedisHSet st k f v)) = hget_fault st"
  "hset_fault (snd (RedisHSet st k f v)) = hset_fault st"
  "keys_fault (snd (RedisHSet st k f v)) = keys_fault st"
  by (simp_all add: RedisHSet_def)

lemma same_reads_refl: "same_reads w w"
  by (simp add: same_reads_def)

lemma same_reads_trans: "same_reads a b \<Longrightarrow> same_reads b c \<Longrightarrow> same_reads a c"
  by (simp add: same_reads_def)

lemma same_reads_session:
  "same_reads w ((snd (uuid_New w))\<lparr>redis := snd (RedisHSet (redis (snd (uuid_New w))) key ''session_id'' u)\<rparr>)"
  by (simp add: same_reads_def uuid_New_def hget_after_hset hset_frame)

lemma same_reads_get:
  "same_reads w w' \<Longrightarrow> RedisGet (redis w') k = RedisGet (redis w) k"
  unfolding same_reads_def RedisGet_def by (elim conjE) simp

lemma same_reads_clock:
  "same_reads w w' \<Longrightarrow> clock w' = clock w"
  unfolding same_reads_def by (elim conjE) simp

lemma same_reads_request:
  "same_reads w w' \<Longrightarrow> GetTokenRequestStatus J w' t = GetTokenRequestStatus J w t"
  by (simp add: GetTokenRequestStatus_def same_reads_get)

lemma same_reads_cool:
  "same_reads w w' \<Longrightarrow> GetTokenCoolStatus J w' t = GetTokenCoolStatus J w t"
  by (simp add: GetTokenCoolStatus_def same_reads_get same_reads_clock cong: sum.case_cong option.case_cong)

lemma same_reads_chat:
  "same_reads w w' \<Longrightarrow> getTokenChatUsageCount w' t = getTokenChatUsageCount w t"
  by (simp add: getTokenChatUsageCount_def same_reads_get)

lemma same_reads_agent:
  "same_reads w w' \<Longrightarrow> getTokenAgentUsageCount w' t = getTokenAgentUsageCount w t"
  by (simp add: getTokenAgentUsageCount_def same_reads_get)

lemma same_reads_hget:
  "same_reads w w' \<Longrightarrow> field \<noteq> ''session_id'' \<Longrightarrow> RedisHGet (redis w') key field = RedisHGet (redis w) key field"
  by (simp add: same_reads_def)

lemma same_reads_eligible:
  "same_reads w w' \<Longrightarrow> eligible J ex w' key = eligible J ex w key"
  by (simp add: eligible_def same_reads_request same_reads_cool same_reads_chat same_reads_agent
      same_reads_hget same_reads_clock cong: sum.case_cong)

lemma same_reads_cooling:
  "same_reads w w' \<Longrightarrow> cooling J w' t = cooling J w t"
  by (simp add: cooling_def same_reads_cool)



lemma same_reads_session_id_of: "same_reads w (snd (session_id_of key w))"
  using same_reads_session[of w key "fst (uuid_New w)"]
  by (auto simp add: session_id_of_def same_reads_refl split: sum.splits prod.splits)

lemma loop_body_step:
  "\<exists>w' s. same_reads w w' \<and> (let u = go_value (RedisHGet (redis w) key ''tenant_url'') in
     loop_body J ex key (w, av, co) =
       (if eligible J ex w key
        then (if cooling J w (drop 6 key)
              then (w', av, co @ [(drop 6 key, u, s)])
              else (w', av @ [(drop 6 key, u, s)], co))
        else (w', av, co)))"
proof -
  let ?w1 = "snd (session_id_of key w)"
  have c: "GetTokenCoolStatus J ?w1 (drop 6 key) = GetTokenCoolStatus J w (drop 6 key)"
    by (rule same_reads_cool[OF same_reads_session_id_of])
  show ?thesis
  proof (cases "GetTokenCoolStatus J w (drop 6 key)")
    case (Inl e)
    then show ?thesis
      using c same_reads_session_id_of[of w key] same_reads_refl[of w]
      by (auto simp add: loop_body_def eligible_def Let_def split: sum.splits prod.splits)
  next
    case (Inr cs)
    then show ?thesis
      using c same_reads_session_id_of[of w key] same_reads_refl[of w]
      by (auto simp add: loop_body_def eligible_def cooling_def go_value_def Let_def split: sum.splits prod.splits)
  qed
qed


lemma scan_keys_char:
  "\<forall>k\<in>set keys. 6 \<le> length k \<Longrightarrow> same_reads w0 w \<Longrightarrow>
   \<exists>w' av' co'. scan_keys J ex keys (w, av, co) = Inr (w', av', co') \<and> same_reads w0 w' \<and>
      map fst2 av' = map fst2 av @ map (entry_of w0) (avail_keys J ex w0 keys) \<and>
      map fst2 co' = map fst2 co @ map (entry_of w0) (cool_keys J ex w0 keys)"
proof (induction keys arbitrary: w av co)
  case Nil
  then show ?case by (simp add: avail_keys_def cool_keys_def)
next
  case (Cons key keys)
  obtain w1 s where sr: "same_reads w w1"
    and step: "loop_body J ex key (w, av, co) =
       (if eligible J ex w key
        then (if cooling J w (drop 6 key)
              then (w1, av, co @ [(drop 6 key, go_value (RedisHGet (redis w) key ''tenant_url''), s)])
              else (w1, av @ [(drop 6 key, go_value (RedisHGet (redis w) key ''tenant_url''), s)], co))
        else (w1, av, co))"
    using loop_body_step[where w=w and J=J and ex=ex and key=key and av=av and co=co] by (auto simp: Let_def)
  have sr01: "same_reads w0 w1"
    using Cons.prems(2) sr by (rule same_reads_trans)
  have el: "eligible J ex w key = eligible J ex w0 key"
    by (rule same_reads_eligible[OF Cons.prems(2)])
  have cl: "cooling J w (drop 6 key) = cooling J w0 (drop 6 key)"
    by (rule same_reads_cooling[OF Cons.prems(2)])
  have tu: "RedisHGet (redis w) key ''tenant_url'' = RedisHGet (redis w0) key ''tenant_url''"
    by (rule same_reads_hget[OF Cons.prems(2)]) simp
  have len: "\<not> length key < 6" and rest: "\<forall>k\<in>set keys. 6 \<le> length k"
    using Cons.prems(1) by auto
  show ?case
  proof (cases "eligible J ex w0 key")
    case False
    with Cons.IH[OF rest sr01, of av co] step el len show ?thesis
      by (simp add: avail_keys_def cool_keys_def)
  next
    case True
    show ?thesis
    proof (cases "cooling J w0 (drop 6 key)")
      case c: True
      with Cons.IH[OF rest sr01, of av "co @ [(drop 6 key, go_value (RedisHGet (redis w) key ''tenant_url''), s)]"]
        step el cl tu len True show ?thesis
        by (simp add: avail_keys_def cool_keys_def entry_of_def fst2_def)
    next
      case c: False
      with Cons.IH[OF rest sr01, of "av @ [(drop 6 key, go_value (RedisHGet (redis w) key ''tenant_url''), s)]" co]
        step el cl tu len True show ?thesis
        by (simp add: avail_keys_def cool_keys_def entry_of_def fst2_def)
    qed
  qed
qed



lemma pool_key_length: "k \<in> set (pool w) \<Longrightarrow> 6 \<le> length k"
  by (auto simp: pool_def prefix_def)

lemma RedisKeys_pool:
  "RedisKeys (redis w) ''token:'' = (if keys_fault (redis w) then Inl RedisFailure else Inr (pool w))"
  by (simp add: RedisKeys_def pool_def)

lemma scan_pool:
  "\<exists>w' av co. scan_keys J ex (pool w) (w, [], []) = Inr (w', av, co) \<and> same_reads w w' \<and>
      map fst2 av = map (entry_of w) (avail_keys J ex w (pool w)) \<and>
      map fst2 co = map (entry_of w) (cool_keys J ex w (pool w))"
  using scan_keys_char[where keys="pool w" and ?w0.0=w and w=w and av="[]" and co="[]" and J=J and ex=ex]
  by (simp add: pool_key_length same_reads_refl)

lemma pick_entry_nth:
  "map fst2 av = map (entry_of w) ks \<Longrightarrow> i < length ks \<Longrightarrow>
   \<exists>s. pick_entry (av ! i) = Chosen (drop 6 (ks ! i)) (go_value (RedisHGet (redis w) (ks ! i) ''tenant_url'')) s"
proof -
  assume m: "map fst2 av = map (entry_of w) ks" and i: "i < length ks"
  from m have l: "length av = length ks" by (metis length_map)
  from m i l have "fst2 (av ! i) = entry_of w (ks ! i)"
    by (metis nth_map)
  then show ?thesis
    by (cases "av ! i") (auto simp: pick_entry_def fst2_def entry_of_def)
qed

lemma select_token_NoToken:
  "keys_fault (redis w) \<or> pool w = [] \<Longrightarrow> select_token J ex w = (NoToken, w)"
  by (auto simp: select_token_def RedisKeys_pool)

lemma select_token_avail:
  assumes "\<not> keys_fault (redis w)" and "avail_keys J ex w (pool w) \<noteq> []"
  shows "\<exists>k s w'. k \<in> set (avail_keys J ex w (pool w)) \<and>
           select_token J ex w = (Chosen (drop 6 k) (go_value (RedisHGet (redis w) k ''tenant_url'')) s, w')"
proof -
  let ?A = "avail_keys J ex w (pool w)"
  obtain w1 av co where sc: "scan_keys J ex (pool w) (w, [], []) = Inr (w1, av, co)"
    and av: "map fst2 av = map (entry_of w) ?A"
    using scan_pool[of J ex w] by blast
  from av have l: "length av = length ?A" by (metis length_map)
  from assms(2) have pne: "pool w \<noteq> []" by (auto simp: avail_keys_def)
  let ?i = "rand_gen w1 (rand_used w1) mod length av"
  have i: "?i < length ?A" using l assms(2) by simp
  obtain s where s: "pick_entry (av ! ?i) = Chosen (drop 6 (?A ! ?i)) (go_value (RedisHGet (redis w) (?A ! ?i) ''tenant_url'')) s"
    using pick_entry_nth[OF av i] by blast
  have ane: "av \<noteq> []" using l assms(2) by auto
  have "select_token J ex w = (pick_entry (av ! ?i), w1\<lparr>rand_used := Suc (rand_used w1)\<rparr>)"
    using assms(1) pne sc ane by (simp add: select_token_def RedisKeys_pool rand_Intn_def)
  with s i show ?thesis by (metis nth_mem)
qed

lemma select_token_cool:
  assumes "\<not> keys_fault (redis w)" and "avail_keys J ex w (pool w) = []"
    and "cool_keys J ex w (pool w) \<noteq> []"
  shows "\<exists>k s w'. k \<in> set (cool_keys J ex w (pool w)) \<and>
           select_token J ex w = (Chosen (drop 6 k) (go_value (RedisHGet (redis w) k ''tenant_url'')) s, w')"
proof -
  let ?C = "cool_keys J ex w (pool w)"
  obtain w1 av co where sc: "scan_keys J ex (pool w) (w, [], []) = Inr (w1, av, co)"
    and av: "map fst2 av = map (entry_of w) (avail_keys J ex w (pool w))"
    and co: "map fst2 co = map (entry_of w) ?C"
    using scan_pool[of J ex w] by blast
  from av assms(2) have ae: "av = []" by simp
  from co have l: "length co = length ?C" by (metis length_map)
  from assms(3) have pne: "pool w \<noteq> []" by (auto simp: cool_keys_def)
  let ?i = "rand_gen w1 (rand_used w1) mod length co"
  have i: "?i < length ?C" using l assms(3) by simp
  obtain s where s: "pick_entry (co ! ?i) = Chosen (drop 6 (?C ! ?i)) (go_value (RedisHGet (redis w) (?C ! ?i) ''tenant_url'')) s"
    using pick_entry_nth[OF co i] by blast
  have cne: "co \<noteq> []" using l assms(3) by auto
  have "select_token J ex w = (pick_entry (co ! ?i), w1\<lparr>rand_used := Suc (rand_used w1)\<rparr>)"
    using assms(1) pne sc ae cne by (simp add: select_token_def RedisKeys_pool rand_Intn_def)
  with s i show ?thesis by (metis nth_mem)
qed

lemma select_token_none:
  assumes "\<not> keys_fault (redis w)" and "pool w \<noteq> []" and "avail_keys J ex w (pool w) = []"
    and "cool_keys J ex w (pool w) = []"
  shows "\<exists>w'. select_token J ex w = (NoAvailableToken, w')"
proof -
  obtain w1 av co where sc: "scan_keys J ex (pool w) (w, [], []) = Inr (w1, av, co)"
    and av: "map fst2 av = map (entry_of w) (avail_keys J ex w (pool w))"
    and co: "map fst2 co = map (entry_of w) (cool_keys J ex w (pool w))"
    using scan_pool[of J ex w] by blast
  from av co assms have "av = []" "co = []" by simp_all
  with assms sc show ?thesis by (simp add: select_token_def RedisKeys_pool)
qed

lemma select_token_Chosen:
  assumes "fst (select_token J ex w) = Chosen t u s"
  shows "\<exists>k \<in> set (pool w). t = drop 6 k \<and> eligible J ex w k \<and>
           (cooling J w t \<longrightarrow> avail_keys J ex w (pool w) = [])"
proof (cases "keys_fault (redis w) \<or> pool w = []")
  case True
  then show ?thesis using assms select_token_NoToken[of w J ex] by simp
next
  case nf: False
  show ?thesis
  proof (cases "avail_keys J ex w (pool w) = []")
    case False
    with nf obtain k s' w' where "k \<in> set (avail_keys J ex w (pool w))"
      and "select_token J ex w = (Chosen (drop 6 k) (go_value (RedisHGet (redis w) k ''tenant_url'')) s', w')"
      using select_token_avail[of w J ex] by blast
    with assms show ?thesis by (auto simp: avail_keys_def)
  next
    case ae: True
    show ?thesis
    proof (cases "cool_keys J ex w (pool w) = []")
      case False
      with nf ae obtain k s' w' where "k \<in> set (cool_keys J ex w (pool w))"
        and "select_token J ex w = (Chosen (drop 6 k) (go_value (RedisHGet (redis w) k ''tenant_url'')) s', w')"
        using select_token_cool[of w J ex] by blast
      with assms ae show ?thesis by (auto simp: cool_keys_def)
    next
      case True
      with nf ae assms select_token_none[of w J ex] show ?thesis by auto
    qed
  qed
qed


lemmas eval_defs =
  select_token_def RedisKeys_def loop_body_def session_id_of_def pick_entry_def rand_Intn_def uuid_New_def
  RedisHGet_def RedisGet_def RedisSet_def RedisHSet_def
  GetTokenRequestStatus_def GetTokenCoolStatus_def SetTokenRequestStatus_def SetTokenCoolStatus_def
  getTokenChatUsageCount_def getTokenAgentUsageCount_def
  time_Sub_def time_After_def time_Add_def time_zero_def Second_def Minute_def Hour_def maxDuration_def minDuration_def
  strconv_Atoi_def digits_value_def is_digit_def Let_def
  pool_def eligible_def cooling_def GetAvailableToken_def GetNextAvailableToken_def
  demo_world_def demo_store_def demo_codec_def lone_world_def outage_world_def
  demo_config_def demo_context_def busy_world_def expired_world_def blind_world_def
  readonly_world_def silent_world_def healthy_world_def

subsection \<open>More on the selection\<close>

lemma eligible_exclude:
  "eligible J (Some X) w k \<longleftrightarrow> eligible J None w k \<and> drop 6 k \<noteq> X"
  by (auto simp: eligible_def)





lemma select_token_picks:
  assumes "\<not> keys_fault (redis w)" and "key \<in> set (pool w)" and "eligible J ex w key"
  shows "\<exists>t u s. fst (select_token J ex w) = Chosen t u s"
proof (cases "avail_keys J ex w (pool w) = []")
  case False
  from select_token_avail[OF assms(1) False] show ?thesis by auto
next
  case True
  with assms(2,3) have "cool_keys J ex w (pool w) \<noteq> []"
    by (auto simp: avail_keys_def cool_keys_def filter_empty_conv)
  from select_token_cool[OF assms(1) True this] show ?thesis by auto
qed


subsection \<open>What the middleware answers to the two sentinels\<close>




subsection \<open>The selection depends on the string entries through its reads only\<close>

lemma with_strings_simps [simp]:
  "clock (with_strings ss w) = clock w"
  "RedisHGet (redis (with_strings ss w)) key f = RedisHGet (redis w) key f"
  "strings (redis (with_strings ss w)) = ss"
  "keys_fault (redis (with_strings ss w)) = keys_fault (redis w)"
  "rand_gen (with_strings ss w) = rand_gen w"
  "rand_used (with_strings ss w) = rand_used w"
  "tokenLocks (with_strings ss w) = tokenLocks w"
  "logs (with_strings ss w) = logs w"
  "uuid_gen (with_strings ss w) = uuid_gen w"
  "uuid_used (with_strings ss w) = uuid_used w"
  "upstream (with_strings ss w) = upstream w"
  "get_fault (redis (with_strings ss w)) = get_fault (redis w)"
  "set_fault (redis (with_strings ss w)) = set_fault (redis w)"
  "hget_fault (redis (with_strings ss w)) = hget_fault (redis w)"
  "hset_fault (redis (with_strings ss w)) = hset_fault (redis w)"
  "hashes (redis (with_strings ss w)) = hashes (redis w)"
  by (simp_all add: with_strings_def RedisHGet_def)

lemma session_id_of_with_strings:
  "session_id_of key (with_strings ss w) =
     (fst (session_id_of key w), with_strings ss (snd (session_id_of key w)))"
  by (simp add: session_id_of_def with_strings_def RedisHGet_def RedisHSet_def uuid_New_def
      split: sum.splits option.splits)

lemma same_reads_with_strings:
  "same_reads w w' \<Longrightarrow> same_reads (with_strings ss w) (with_strings ss w')"
  unfolding same_reads_def by simp

lemma reads_agree_step:
  assumes "same_reads w w'" and "reads_agree J ex w (with_strings ss w)"
  shows "reads_agree J ex w' (with_strings ss w')"
  using assms(2) same_reads_with_strings[OF assms(1), of ss]
  unfolding reads_agree_def
  by (simp add: same_reads_request[OF assms(1)] same_reads_chat[OF assms(1)] same_reads_agent[OF assms(1)]
      same_reads_cool[OF assms(1)] same_reads_cooling[OF assms(1)]
      same_reads_request same_reads_chat same_reads_agent same_reads_cool same_reads_cooling)

lemma loop_body_same_reads: "same_reads w (fst (loop_body J ex key (w, av, co)))"
  using loop_body_step[where w=w and J=J and ex=ex and key=key and av=av and co=co]
  by (auto simp: Let_def split: if_splits)

lemma loop_body_with_strings:
  assumes "reads_agree J ex w (with_strings ss w)"
  shows "loop_body J ex key (with_strings ss w, av, co) =
           (case loop_body J ex key (w, av, co) of (w', av', co') \<Rightarrow> (with_strings ss w', av', co'))"
proof (cases "ex = Some (drop 6 key)")
  case True
  then show ?thesis by (simp add: loop_body_def)
next
  case False
  let ?t = "drop 6 key"
  let ?w1 = "snd (session_id_of key w)"
  from False assms have a: "GetTokenRequestStatus J (with_strings ss w) ?t = GetTokenRequestStatus J w ?t"
    "getTokenChatUsageCount (with_strings ss w) ?t = getTokenChatUsageCount w ?t"
    "getTokenAgentUsageCount (with_strings ss w) ?t = getTokenAgentUsageCount w ?t"
    by (simp_all add: reads_agree_def)
  have "reads_agree J ex ?w1 (with_strings ss ?w1)"
    using same_reads_session_id_of assms by (rule reads_agree_step)
  with False have c: "cooling J (with_strings ss ?w1) ?t = cooling J ?w1 ?t"
    "isl (GetTokenCoolStatus J (with_strings ss ?w1) ?t) = isl (GetTokenCoolStatus J ?w1 ?t)"
    by (simp_all add: reads_agree_def)
  show ?thesis
    using c
    by (cases "GetTokenCoolStatus J (with_strings ss ?w1) ?t"; cases "GetTokenCoolStatus J ?w1 ?t")
       (auto simp: loop_body_def a session_id_of_with_strings cooling_def Let_def
             split: sum.splits prod.splits)
qed

lemma scan_keys_with_strings:
  "reads_agree J ex w (with_strings ss w) \<Longrightarrow>
   scan_keys J ex keys (with_strings ss w, av, co) =
     (case scan_keys J ex keys (w, av, co) of
        Inl w' \<Rightarrow> Inl (with_strings ss w')
      | Inr (w', av', co') \<Rightarrow> Inr (with_strings ss w', av', co'))"
proof (induction keys arbitrary: w av co)
  case Nil
  then show ?case by simp
next
  case (Cons key keys)
  obtain w' av' co' where lb: "loop_body J ex key (w, av, co) = (w', av', co')"
    by (cases "loop_body J ex key (w, av, co)") auto
  have "same_reads w w'" using loop_body_same_reads[of w J ex key av co] lb by simp
  then have ra: "reads_agree J ex w' (with_strings ss w')"
    using Cons.prems by (rule reads_agree_step)
  show ?case
    using Cons.IH[OF ra, of av' co'] lb loop_body_with_strings[OF Cons.prems, of key av co]
    by simp
qed

lemma select_token_with_strings:
  assumes "reads_agree J ex w (with_strings ss w)" and "pool (with_strings ss w) = pool w"
  shows "fst (select_token J ex (with_strings ss w)) = fst (select_token J ex w)"
  using assms(2) scan_keys_with_strings[OF assms(1), of "pool w" "[]" "[]"]
  by (auto simp: select_token_def RedisKeys_pool rand_Intn_def split: sum.splits prod.splits)

lemma forget_cool_with_strings:
  "forget_cool t w = with_strings (AList.delete (''token_cool_status:'' @ t) (strings (redis w))) w"
  by (simp add: forget_cool_def with_strings_def)

lemma RedisGet_with_strings_delete:
  "k' \<noteq> k \<Longrightarrow> RedisGet (redis (with_strings (AList.delete k (strings (redis w))) w)) k' = RedisGet (redis w) k'"
  by (simp add: RedisGet_def)

lemma filter_prefix_removeAll:
  "\<not> P k \<Longrightarrow> filter P (remdups (xs @ removeAll k ys)) = filter P (remdups (xs @ ys))"
proof -
  assume n: "\<not> P k"
  have "filter P (removeAll k ys) = filter P ys"
    using n by (induction ys) auto
  then show ?thesis
    by (simp add: remdups_filter[symmetric])
qed

lemma pool_forget_cool: "pool (forget_cool t w) = pool w"
  by (simp add: pool_def forget_cool_with_strings delete_keys filter_prefix_removeAll prefix_def)

lemma expired_not_cooling:
  assumes "RedisGet (redis w) (''token_cool_status:'' @ t) = Inr js"
    and "unmarshal_cool J js = Some cs" and "CoolEnd cs < clock w"
  shows "GetTokenCoolStatus J w t = Inr (cs\<lparr>InCool := False\<rparr>)"
  using assms by (simp add: GetTokenCoolStatus_def time_After_def)

lemma absent_not_cooling:
  "GetTokenCoolStatus J (forget_cool t w) t = Inr \<lparr>InCool = False, CoolEnd = time_zero\<rparr>"
  by (simp add: GetTokenCoolStatus_def forget_cool_with_strings RedisGet_def delete_conv' Let_def)

lemma reads_agree_forget_cool:
  assumes "RedisGet (redis w) (''token_cool_status:'' @ t) = Inr js"
    and "unmarshal_cool J js = Some cs" and "CoolEnd cs < clock w"
  shows "reads_agree J ex w (forget_cool t w)"
  unfolding reads_agree_def
proof (intro allI impI conjI)
  fix t' :: string
  let ?v = "forget_cool t w"
  show "GetTokenRequestStatus J ?v t' = GetTokenRequestStatus J w t'"
    by (simp add: GetTokenRequestStatus_def forget_cool_with_strings RedisGet_with_strings_delete)
  show "getTokenChatUsageCount ?v t' = getTokenChatUsageCount w t'"
    by (simp add: getTokenChatUsageCount_def forget_cool_with_strings RedisGet_with_strings_delete)
  show "getTokenAgentUsageCount ?v t' = getTokenAgentUsageCount w t'"
    by (simp add: getTokenAgentUsageCount_def forget_cool_with_strings RedisGet_with_strings_delete)
  have same: "GetTokenCoolStatus J ?v t' = GetTokenCoolStatus J w t'" if "t' \<noteq> t"
    using that
    by (simp add: GetTokenCoolStatus_def forget_cool_with_strings RedisGet_with_strings_delete
        cong: sum.case_cong option.case_cong)
  show "cooling J ?v t' = cooling J w t'"
  proof (cases "t' = t")
    case True
    then show ?thesis
      using expired_not_cooling[OF assms] absent_not_cooling[of J t w] by (simp add: cooling_def)
  next
    case False
    then show ?thesis by (simp add: cooling_def same)
  qed
  show "isl (GetTokenCoolStatus J ?v t') = isl (GetTokenCoolStatus J w t')"
  proof (cases "t' = t")
    case True
    then show ?thesis
      using expired_not_cooling[OF assms] absent_not_cooling[of J t w] by simp
  next
    case False
    then show ?thesis by (simp add: same)
  qed
qed


subsection \<open>The steps of the switch\<close>

lemma select_token_frame:
  "strings (redis (snd (select_token J ex w))) = strings (redis w) \<and>
   set_fault (redis (snd (select_token J ex w))) = set_fault (redis w) \<and>
   logs (snd (select_token J ex w)) = logs w \<and>
   tokenLocks (snd (select_token J ex w)) = tokenLocks w \<and>
   clock (snd (select_token J ex w)) = clock w"
proof -
  obtain w1 av co where sc: "scan_keys J ex (pool w) (w, [], []) = Inr (w1, av, co)"
    and sr: "same_reads w w1"
    using scan_pool[of J ex w] by blast
  from sr have f: "strings (redis w1) = strings (redis w)" "set_fault (redis w1) = set_fault (redis w)"
    "logs w1 = logs w" "tokenLocks w1 = tokenLocks w" "clock w1 = clock w"
    unfolding same_reads_def by simp_all
  show ?thesis
    using sc f by (simp add: select_token_def RedisKeys_pool rand_Intn_def)
qed

lemma GetNextAvailableToken_frame:
  assumes "GetNextAvailableToken J x w = (r, w')"
  shows "strings (redis w') = strings (redis w)" "set_fault (redis w') = set_fault (redis w)"
    "logs w' = logs w" "tokenLocks w' = tokenLocks w" "clock w' = clock w"
  using assms select_token_frame[of J "Some x" w]
  by (auto simp: GetNextAvailableToken_def split: prod.splits)

lemma status_key_neq_cool_key [simp]:
  "''token_status:'' @ a \<noteq> ''token_cool_status:'' @ b"
  by simp

lemma SetTokenRequestStatus_frame:
  "map_of (strings (redis (snd (SetTokenRequestStatus J t rs w)))) (''token_cool_status:'' @ b)
     = map_of (strings (redis w)) (''token_cool_status:'' @ b) \<and>
   set_fault (redis (snd (SetTokenRequestStatus J t rs w))) = set_fault (redis w) \<and>
   logs (snd (SetTokenRequestStatus J t rs w)) = logs w \<and>
   tokenLocks (snd (SetTokenRequestStatus J t rs w)) = tokenLocks w \<and>
   clock (snd (SetTokenRequestStatus J t rs w)) = clock w"
  by (simp add: SetTokenRequestStatus_def RedisSet_def update_conv' split: option.splits)

lemma cooled_log [simp]: "cool_record t js w \<Longrightarrow> cool_record t js (log_write e w)"
  by (simp add: cool_record_def log_write_def)

lemma cooled_status [simp]: "cool_record t js w \<Longrightarrow> cool_record t js (snd (SetTokenRequestStatus J t' rs w))"
  using SetTokenRequestStatus_frame[of J t' rs w t] by (simp add: cool_record_def)

lemma cooled_unlock: "cool_record t js w \<Longrightarrow> mutex_Unlock l w = Some w' \<Longrightarrow> cool_record t js w'"
  by (auto simp: cool_record_def mutex_Unlock_def split: if_splits)

lemma cooled_lock: "cool_record t js w \<Longrightarrow> mutex_Lock l w = Some w' \<Longrightarrow> cool_record t js w'"
  by (auto simp: cool_record_def mutex_Lock_def split: if_splits)

lemma cooled_getlock [simp]: "cool_record t js w \<Longrightarrow> cool_record t js (snd (GetTokenLock l w))"
  by (auto simp: cool_record_def GetTokenLock_def split: option.splits)

lemma cooled_next: "cool_record t js w \<Longrightarrow> GetNextAvailableToken J x w = (r, w') \<Longrightarrow> cool_record t js w'"
  using GetNextAvailableToken_frame[of J x w r w'] by (simp add: cool_record_def)

lemma SetTokenCoolStatus_ok:
  assumes "marshal_cool J \<lparr>InCool = True, CoolEnd = clock w + d\<rparr> = Some js"
    and "\<not> set_fault (redis w) (''token_cool_status:'' @ token)"
  shows "fst (SetTokenCoolStatus J token d w) = None"
    and "map_of (strings (redis (snd (SetTokenCoolStatus J token d w)))) (''token_cool_status:'' @ token) = Some (js, d)"
    and "logs (snd (SetTokenCoolStatus J token d w)) = logs w"
  using assms by (simp_all add: SetTokenCoolStatus_def RedisSet_def time_Add_def update_conv')

lemma cool_current_ok:
  assumes "marshal_cool J \<lparr>InCool = True, CoolEnd = clock w + 5 * Minute\<rparr> = Some js"
    and "\<not> set_fault (redis w) (''token_cool_status:'' @ cur)"
  shows "cool_record cur (Some (js, 5 * Minute), InfoCooled cur) (cool_current J cur w)"
  using assms
  by (simp add: cool_current_def cool_record_def SetTokenCoolStatus_def RedisSet_def time_Add_def
      update_conv' log_write_def)

lemma cooled_release:
  "cool_record t js w \<Longrightarrow> cool_record t js (case release_current J c cur w of Inl w' \<Rightarrow> w' | Inr w' \<Rightarrow> w')"
  by (auto simp: release_current_def Let_def split: option.splits ctxval.splits
      intro: cooled_unlock[OF cooled_status])

lemma cooled_acquire:
  "cool_record t js w \<Longrightarrow> cool_record t js (final_world (acquire_next J c cur n next w))"
proof -
  assume c: "cool_record t js w"
  obtain nt nu ns where n: "next = (nt, nu, ns)" by (cases "next") auto
  have c1: "cool_record t js (snd (GetTokenLock nt w))" using c by simp
  show ?thesis
  proof (cases "mutex_Lock nt (snd (GetTokenLock nt w))")
    case None
    then show ?thesis using c1 by (simp add: acquire_next_def n GetTokenLock_def split: option.splits)
  next
    case (Some w2)
    have c2: "cool_record t js w2" using cooled_lock[OF c1 Some] .
    let ?r = "SetTokenRequestStatus J nt \<lparr>InProgress = True, LastRequestAt = clock w2\<rparr> w2"
    have c3: "cool_record t js (snd ?r)" using c2 by simp
    have fl: "fst (GetTokenLock nt w) = nt" by (simp add: GetTokenLock_def split: option.splits)
    show ?thesis
    proof (cases "fst ?r")
      case None
      then show ?thesis using Some c3 fl
        by (simp add: acquire_next_def n split_beta)
    next
      case e: (Some e)
      show ?thesis
      proof (cases "mutex_Unlock nt (snd ?r)")
        case None
        then show ?thesis using Some e c3 fl by (simp add: acquire_next_def n split_beta)
      next
        case u: (Some w4)
        have "cool_record t js w4" using cooled_unlock[OF c3 u] .
        then show ?thesis using Some e u fl by (simp add: acquire_next_def n split_beta)
      qed
    qed
  qed
qed

lemma cool_current_failed:
  assumes "marshal_cool J \<lparr>InCool = True, CoolEnd = clock w + 5 * Minute\<rparr> = None \<or>
           set_fault (redis w) (''token_cool_status:'' @ cur)"
  shows "\<exists>e. cool_current J cur w = log_write (ErrorSetCoolFailed cur e) w"
  using assms
  by (auto simp: cool_current_def SetTokenCoolStatus_def RedisSet_def time_Add_def split: option.splits)

lemma switch_cooled:
  assumes "c ''token'' = Some (VString cur)" and "retryCount_of c < maxRetries"
    and c2: "cool_record cur js (cool_current J cur w)"
  shows "cool_record cur js (final_world (SwitchTokenAndRetry J c maxRetries w))"
proof -
  let ?w2 = "cool_current J cur w"
  obtain r w3 where g: "GetNextAvailableToken J cur ?w2 = (r, w3)"
    by (cases "GetNextAvailableToken J cur ?w2") auto
  have c3: "cool_record cur js w3" using cooled_next[OF c2 g] .
  show ?thesis
  proof (cases r)
    case None
    with assms(1,2) g c3 show ?thesis by (simp add: SwitchTokenAndRetry_def)
  next
    case (Some e)
    obtain nt nu ns where n: "e = (nt, nu, ns)" by (cases e) auto
    show ?thesis
    proof (cases "nt = ''No token'' \<or> nt = ''No available token''")
      case True
      with assms(1,2) g c3 Some n show ?thesis by (auto simp add: SwitchTokenAndRetry_def)
    next
      case False
      show ?thesis
      proof (cases "release_current J c cur w3")
        case (Inl w4)
        with cooled_release[OF c3, of J c cur] assms(1,2) g Some n False show ?thesis
          by (simp add: SwitchTokenAndRetry_def)
      next
        case (Inr w4)
        with cooled_release[OF c3, of J c cur] have "cool_record cur js w4" by simp
        from cooled_acquire[OF this, of J c cur "retryCount_of c" "(nt, nu, ns)"]
          assms(1,2) g Some n False Inr show ?thesis
          by (simp add: SwitchTokenAndRetry_def)
      qed
    qed
  qed
qed


lemma cool_current_frame:
  "tokenLocks (cool_current J cur w) = tokenLocks w \<and> clock (cool_current J cur w) = clock w \<and>
   set_fault (redis (cool_current J cur w)) = set_fault (redis w)"
  by (simp add: cool_current_def SetTokenCoolStatus_def RedisSet_def log_write_def
      split: option.splits)

lemma SetTokenRequestStatus_ok:
  assumes "marshal_request J rs \<noteq> None" and "\<not> set_fault (redis w) (''token_status:'' @ t)"
  shows "fst (SetTokenRequestStatus J t rs w) = None"
  using assms by (auto simp: SetTokenRequestStatus_def RedisSet_def)

lemma release_current_ok:
  assumes "c ''token_lock'' = Some (VLock l)" and "tokenLocks w l = Some True"
  shows "\<exists>w'. release_current J c cur w = Inr w' \<and> tokenLocks w' = (tokenLocks w)(l \<mapsto> False) \<and>
           clock w' = clock w \<and> set_fault (redis w') = set_fault (redis w)"
  using assms
  by (auto simp: release_current_def mutex_Unlock_def SetTokenRequestStatus_def RedisSet_def Let_def
      split: option.splits)

lemma acquire_next_ok:
  assumes "tokenLocks w nxt \<noteq> Some True"
    and "marshal_request J \<lparr>InProgress = True, LastRequestAt = clock w\<rparr> \<noteq> None"
    and "\<not> set_fault (redis w) (''token_status:'' @ nxt)"
  shows "\<exists>w'. acquire_next J c cur n (nxt, u, s) w =
           Done (True, c(''token'' \<mapsto> VString nxt, ''tenant_url'' \<mapsto> VString u,
                         ''session_id'' \<mapsto> VString s, ''token_lock'' \<mapsto> VLock nxt,
                         ''retry_count'' \<mapsto> VInt (n + 1))) w' \<and>
         tokenLocks w' = (tokenLocks w)(nxt \<mapsto> True)"
  using assms
  by (auto simp: acquire_next_def GetTokenLock_def mutex_Lock_def SetTokenRequestStatus_def RedisSet_def
      log_write_def split: option.splits)

lemma switch_completes:
  assumes tok: "c ''token'' = Some (VString cur)" and retry: "retryCount_of c < maxRetries"
    and sel: "GetNextAvailableToken J cur (cool_current J cur w) = (Some (nxt, u, s), w1)"
    and ns: "nxt \<noteq> ''No token''" "nxt \<noteq> ''No available token''"
    and lk: "c ''token_lock'' = Some (VLock l)" "tokenLocks w l = Some True" "tokenLocks w nxt \<noteq> Some True"
    and st: "marshal_request J \<lparr>InProgress = True, LastRequestAt = clock w\<rparr> \<noteq> None"
            "\<not> set_fault (redis w) (''token_status:'' @ nxt)"
  shows "\<exists>w'. SwitchTokenAndRetry J c maxRetries w =
           Done (True, c(''token'' \<mapsto> VString nxt, ''tenant_url'' \<mapsto> VString u,
                         ''session_id'' \<mapsto> VString s, ''token_lock'' \<mapsto> VLock nxt,
                         ''retry_count'' \<mapsto> VInt (retryCount_of c + 1))) w' \<and>
         tokenLocks w' = (tokenLocks w)(l \<mapsto> False, nxt \<mapsto> True)"
proof -
  have f1: "tokenLocks w1 = tokenLocks w" "clock w1 = clock w" "set_fault (redis w1) = set_fault (redis w)"
    using GetNextAvailableToken_frame[OF sel] cool_current_frame[of J cur w] by simp_all
  obtain w2 where rel: "release_current J c cur w1 = Inr w2"
    and f2: "tokenLocks w2 = (tokenLocks w)(l \<mapsto> False)" "clock w2 = clock w"
            "set_fault (redis w2) = set_fault (redis w)"
    using release_current_ok[where c=c and l=l and w=w1 and J=J and cur=cur] lk(1,2) f1 by auto
  have nl: "nxt \<noteq> l" using lk by auto
  have "tokenLocks w2 nxt \<noteq> Some True" using f2 nl lk(3) by simp
  then obtain w' where acq: "acquire_next J c cur (retryCount_of c) (nxt, u, s) w2 =
           Done (True, c(''token'' \<mapsto> VString nxt, ''tenant_url'' \<mapsto> VString u,
                         ''session_id'' \<mapsto> VString s, ''token_lock'' \<mapsto> VLock nxt,
                         ''retry_count'' \<mapsto> VInt (retryCount_of c + 1))) w'"
    and tl: "tokenLocks w' = (tokenLocks w2)(nxt \<mapsto> True)"
    using acquire_next_ok[where w=w2 and nxt=nxt and J=J and c=c and cur=cur and n="retryCount_of c" and u=u and s=s] st f2 by auto
  have "SwitchTokenAndRetry J c maxRetries w =
           Done (True, c(''token'' \<mapsto> VString nxt, ''tenant_url'' \<mapsto> VString u,
                         ''session_id'' \<mapsto> VString s, ''token_lock'' \<mapsto> VLock nxt,
                         ''retry_count'' \<mapsto> VInt (retryCount_of c + 1))) w'"
    using tok retry sel ns rel acq by (simp add: SwitchTokenAndRetry_def)
  with tl f2 show ?thesis by simp
qed

subsection \<open>The probe loop\<close>

lemma probe_silent:
  "upstream w = (\<lambda>u. Response 200 [] False) \<Longrightarrow> probe_urls cfg k t s urls w = (Inl ErrNoValidTenant, w)"
  by (induction urls) simp_all

lemma foldl_add_url_hd:
  "tests \<noteq> [] \<Longrightarrow> hd (fst (foldl add_url (tests, uniq) us)) = hd tests"
  by (induction us arbitrary: tests uniq) (auto simp: add_url_def)

lemma foldl_add_url_first:
  "u \<notin> set uniq \<Longrightarrow> hd (fst (foldl add_url ([], uniq) (u # us))) = u"
  using foldl_add_url_hd[of "[u]" "uniq @ [u]" us] by (simp add: add_url_def)

lemma foldl_add_url_nonempty:
  "tests \<noteq> [] \<Longrightarrow> fst (foldl add_url (tests, uniq) us) \<noteq> []"
  by (induction us arbitrary: tests uniq) (auto simp: add_url_def)

lemma rev_upt_21: "rev [0..<21] = 20 # rev [0..<20]"
proof -
  have "[0..<Suc 20] = [0..<20] @ [20]" by (rule upt_Suc_append) simp
  then have "rev [0..<Suc 20] = 20 # rev [0..<20]"
    by (simp only: rev_append rev.simps append.simps)
  moreover have "Suc 20 = (21::nat)" by simp
  ultimately show ?thesis by (simp only:)
qed

lemma foldl_add_url_Cons:
  "foldl add_url ([], []) (map f (x # xs)) = foldl add_url ([f x], [f x]) (map f xs)"
  by (simp add: add_url_def)

lemma candidates_absent:
  "hd (candidate_urls (Inl e)) = d_url 20"
proof -
  let ?a = "foldl add_url ([d_url 20], [d_url 20]) (map d_url (rev [0..<20]))"
  have 1: "foldl add_url ([], []) (map d_url (rev [0..<21])) = ?a"
    by (simp only: rev_upt_21 foldl_add_url_Cons)
  have 2: "hd (fst ?a) = d_url 20" "fst ?a \<noteq> []"
    by (simp_all only: foldl_add_url_hd foldl_add_url_nonempty list.sel not_Cons_self2 simp_thms)
  have 3: "hd (fst (foldl add_url ?a (map i_url (rev [0..<6])))) = d_url 20"
    using foldl_add_url_hd[of "fst ?a" "snd ?a" "map i_url (rev [0..<6])"] 2
    by (simp only: prod.collapse simp_thms)
  have "candidate_urls (Inl e) =
          fst (foldl add_url (foldl add_url ([], []) (map d_url (rev [0..<21]))) (map i_url (rev [0..<6])))"
    by (simp only: candidate_urls_def Let_def go_value_def sum.case sum.disc simp_thms if_True if_False)
  then show ?thesis
    by (simp only: 1 3)
qed

lemma credential_of_returned:
  "credential_of (returned r) = Some t \<Longrightarrow> \<exists>u s. r = Chosen t u s"
  by (cases r) (auto split: if_splits)


lemma GetNextAvailableToken_credential:
  "credential_of (fst (GetNextAvailableToken J X w)) = Some t \<Longrightarrow>
   \<exists>u s. fst (select_token J (Some X) w) = Chosen t u s"
  using credential_of_returned[of "fst (select_token J (Some X) w)" t]
  by (simp add: GetNextAvailableToken_def split_beta)


subsection \<open>The claims about the selection\<close>



text \<open>
  C2. Exclusion respected. \<^verbatim>\<open>GetNextAvailableToken(X)\<close> never returns \<open>X\<close> as a
  credential, and never takes a return that picks \<open>X\<close>. When \<open>X\<close> is the only
  credential of a readable, non-empty pool that passes the other filters, the call
  returns the sentinel \<^verbatim>\<open>"No available token"\<close>.
\<close>

theorem next_token_never_excluded:
  "credential_of (fst (GetNextAvailableToken J X w)) \<noteq> Some X \<and>
   fst (select_token J (Some X) w) \<noteq> Chosen X tenantURL sessionID \<and>
   (\<not> keys_fault (redis w) \<and> pool w \<noteq> [] \<and>
    (\<forall>k \<in> set (pool w). eligible J None w k \<longrightarrow> drop 6 k = X) \<longrightarrow>
      fst (GetNextAvailableToken J X w) = Some (''No available token'', [], []))"
proof (intro conjI impI)
  have a: "fst (select_token J (Some X) w) \<noteq> Chosen X u s" for u s
    using select_token_Chosen[of J "Some X" w X u s] by (auto simp: eligible_def)
  show "fst (select_token J (Some X) w) \<noteq> Chosen X tenantURL sessionID" by (rule a)
  show "credential_of (fst (GetNextAvailableToken J X w)) \<noteq> Some X"
    using GetNextAvailableToken_credential[of J X w X] a by blast
  show "fst (GetNextAvailableToken J X w) = Some (''No available token'', [], [])"
    if h: "\<not> keys_fault (redis w) \<and> pool w \<noteq> [] \<and>
        (\<forall>k \<in> set (pool w). eligible J None w k \<longrightarrow> drop 6 k = X)"
  proof -
    from h have "avail_keys J (Some X) w (pool w) = []" "cool_keys J (Some X) w (pool w) = []"
      by (auto simp: avail_keys_def cool_keys_def filter_empty_conv eligible_exclude)
    with h select_token_none[of w J "Some X"] show ?thesis
      by (auto simp: GetNextAvailableToken_def)
  qed
qed

theorem next_token_never_excluded_witness:
  "credential_of (fst (GetAvailableToken demo_codec demo_world)) = Some ''A'' \<and>
   credential_of (fst (GetNextAvailableToken demo_codec ''A'' demo_world)) = Some ''B'' \<and>
   fst (select_token demo_codec (Some ''A'') demo_world) \<noteq> Chosen ''A'' ''https://d1.api.augmentcode.com/'' ''sa'' \<and>
   \<not> keys_fault (redis lone_world) \<and> pool lone_world = [''token:A''] \<and>
   eligible demo_codec None lone_world ''token:A'' \<and>
   credential_of (fst (GetAvailableToken demo_codec lone_world)) = Some ''A'' \<and>
   credential_of (fst (GetNextAvailableToken demo_codec ''A'' lone_world)) \<noteq> Some ''A'' \<and>
   fst (GetNextAvailableToken demo_codec ''A'' lone_world) = Some (''No available token'', [], [])"
proof -
  have 0: "credential_of (fst (GetAvailableToken demo_codec demo_world)) = Some ''A''"
    by (simp add: eval_defs)
  have 1: "credential_of (fst (GetNextAvailableToken demo_codec ''A'' demo_world)) = Some ''B''"
    by (simp add: eval_defs)
  have 2: "\<not> keys_fault (redis lone_world)" by (simp add: eval_defs)
  have 3: "pool lone_world = [''token:A'']" by (simp add: eval_defs)
  have 4: "eligible demo_codec None lone_world ''token:A''" by (simp add: eval_defs)
  have 5: "\<forall>k \<in> set (pool lone_world). eligible demo_codec None lone_world k \<longrightarrow> drop 6 k = ''A''"
    by (simp add: 3)
  have 6: "credential_of (fst (GetAvailableToken demo_codec lone_world)) = Some ''A''"
    by (simp add: eval_defs)
  note a = next_token_never_excluded[where J=demo_codec and X="''A''" and w=demo_world
             and tenantURL="''https://d1.api.augmentcode.com/''" and sessionID="''sa''"]
  note b = next_token_never_excluded[where J=demo_codec and X="''A''" and w=lone_world
             and tenantURL="''https://d1.api.augmentcode.com/''" and sessionID="''sa''"]
  from a have r1: "fst (select_token demo_codec (Some ''A'') demo_world) \<noteq> Chosen ''A'' ''https://d1.api.augmentcode.com/'' ''sa''"
    by blast
  from b have r2: "credential_of (fst (GetNextAvailableToken demo_codec ''A'' lone_world)) \<noteq> Some ''A''"
    by blast
  from b 2 3 5 have r3: "fst (GetNextAvailableToken demo_codec ''A'' lone_world) = Some (''No available token'', [], [])"
    by simp
  show ?thesis
    using 0 1 r1 2 3 4 6 r2 r3 by (intro conjI)
qed





subsection \<open>The claims about the sentinels, the retry bound and the cooldown\<close>







text \<open>
  C4. Retry bound. With \<^verbatim>\<open>retryCount >= maxRetries\<close> the controller returns
  \<^verbatim>\<open>false\<close> and leaves the context as it is; the world is unchanged but for one
  warning in the log (no warning when the context holds no token string): the store, the
  lock registry and the counts of random values and UUIDs taken are those before the
  call, so no cooldown was written, no selection ran, and no mutex was released or taken.
\<close>

theorem exhausted_switch_does_nothing:
  assumes "retryCount_of c \<ge> maxRetries"
  shows "SwitchTokenAndRetry J c maxRetries w =
           Done (False, c)
             (case c ''token'' of
                Some (VString currentToken) \<Rightarrow> log_write (WarnMaxRetries currentToken (retryCount_of c)) w
              | _ \<Rightarrow> w) \<and>
         redis (final_world (SwitchTokenAndRetry J c maxRetries w)) = redis w \<and>
         tokenLocks (final_world (SwitchTokenAndRetry J c maxRetries w)) = tokenLocks w \<and>
         rand_used (final_world (SwitchTokenAndRetry J c maxRetries w)) = rand_used w \<and>
         uuid_used (final_world (SwitchTokenAndRetry J c maxRetries w)) = uuid_used w"
  using assms
  by (simp add: SwitchTokenAndRetry_def log_write_def split: option.splits ctxval.splits)

theorem exhausted_switch_does_nothing_witness:
  "retryCount_of demo_context = 2 \<and>
   SwitchTokenAndRetry demo_codec demo_context 2 demo_world =
     Done (False, demo_context) (log_write (WarnMaxRetries ''A'' 2) demo_world) \<and>
   redis (final_world (SwitchTokenAndRetry demo_codec demo_context 2 demo_world)) = redis demo_world \<and>
   tokenLocks (final_world (SwitchTokenAndRetry demo_codec demo_context 2 demo_world)) = tokenLocks demo_world"
proof -
  have 1: "retryCount_of demo_context = 2" by (simp add: retryCount_of_def demo_context_def)
  have 2: "retryCount_of demo_context \<ge> 2" by (simp add: 1)
  have 3: "demo_context ''token'' = Some (VString ''A'')" by (simp add: demo_context_def)
  from exhausted_switch_does_nothing[OF 2, of demo_codec demo_world] 1 3 show ?thesis
    by (simp add: log_write_def)
qed

text \<open>
  C6. Best-effort cooldown. With \<^verbatim>\<open>retryCount < maxRetries\<close> the controller writes for
  the current token the cooldown status \<open>InCool = True\<close>, \<open>CoolEnd = now + 5 minutes\<close>
  with a time-to-live of five minutes: when the write succeeds, the record is in the store
  however the call ends. When the write fails (the encoding or the store), the record in
  the store is left as it was, the failure is in the log, and the switch goes on: if the
  selection that follows yields a credential whose mutex is free, the lock is handed over
  and the call returns \<^verbatim>\<open>true\<close> with the context of the new credential.
\<close>

theorem cooldown_write_is_best_effort:
  assumes "c ''token'' = Some (VString currentToken)" and "retryCount_of c < maxRetries"
  shows
    "(marshal_cool J \<lparr>InCool = True, CoolEnd = time_Add (clock w) (5 * Minute)\<rparr> = Some js \<and>
      \<not> set_fault (redis w) (''token_cool_status:'' @ currentToken) \<longrightarrow>
        map_of (strings (redis (final_world (SwitchTokenAndRetry J c maxRetries w))))
          (''token_cool_status:'' @ currentToken) = Some (js, 5 * Minute) \<and>
        InfoCooled currentToken \<in> set (logs (final_world (SwitchTokenAndRetry J c maxRetries w)))) \<and>
     (marshal_cool J \<lparr>InCool = True, CoolEnd = time_Add (clock w) (5 * Minute)\<rparr> = None \<or>
      set_fault (redis w) (''token_cool_status:'' @ currentToken) \<longrightarrow>
        map_of (strings (redis (final_world (SwitchTokenAndRetry J c maxRetries w))))
          (''token_cool_status:'' @ currentToken) =
          map_of (strings (redis w)) (''token_cool_status:'' @ currentToken) \<and>
        (\<exists>e. ErrorSetCoolFailed currentToken e
               \<in> set (logs (final_world (SwitchTokenAndRetry J c maxRetries w)))) \<and>
        (fst (GetNextAvailableToken J currentToken (cool_current J currentToken w))
           = Some (nextToken, tenantURL, sessionID) \<and>
         nextToken \<noteq> ''No token'' \<and> nextToken \<noteq> ''No available token'' \<and>
         c ''token_lock'' = Some (VLock l) \<and> tokenLocks w l = Some True \<and>
         tokenLocks w nextToken \<noteq> Some True \<and>
         marshal_request J \<lparr>InProgress = True, LastRequestAt = clock w\<rparr> \<noteq> None \<and>
         \<not> set_fault (redis w) (''token_status:'' @ nextToken) \<longrightarrow>
           result (SwitchTokenAndRetry J c maxRetries w) =
             Some (True, c(''token'' \<mapsto> VString nextToken, ''tenant_url'' \<mapsto> VString tenantURL,
                           ''session_id'' \<mapsto> VString sessionID, ''token_lock'' \<mapsto> VLock nextToken,
                           ''retry_count'' \<mapsto> VInt (retryCount_of c + 1))) \<and>
           tokenLocks (final_world (SwitchTokenAndRetry J c maxRetries w)) =
             (tokenLocks w)(l \<mapsto> False, nextToken \<mapsto> True)))"
proof (intro conjI impI)
  let ?S = "SwitchTokenAndRetry J c maxRetries w"
  {
    assume ok: "marshal_cool J \<lparr>InCool = True, CoolEnd = time_Add (clock w) (5 * Minute)\<rparr> = Some js \<and>
      \<not> set_fault (redis w) (''token_cool_status:'' @ currentToken)"
    then have "cool_record currentToken (Some (js, 5 * Minute), InfoCooled currentToken)
                 (cool_current J currentToken w)"
      using cool_current_ok[of J w js currentToken] by (simp add: time_Add_def)
    from switch_cooled[OF assms this]
    show "map_of (strings (redis (final_world ?S))) (''token_cool_status:'' @ currentToken)
            = Some (js, 5 * Minute)"
      and "InfoCooled currentToken \<in> set (logs (final_world ?S))"
      by (simp_all add: cool_record_def)
  }
  {
    assume fail: "marshal_cool J \<lparr>InCool = True, CoolEnd = time_Add (clock w) (5 * Minute)\<rparr> = None \<or>
      set_fault (redis w) (''token_cool_status:'' @ currentToken)"
    then obtain e where e: "cool_current J currentToken w = log_write (ErrorSetCoolFailed currentToken e) w"
      using cool_current_failed[of J w currentToken] by (auto simp: time_Add_def)
    have "cool_record currentToken
            (map_of (strings (redis w)) (''token_cool_status:'' @ currentToken),
             ErrorSetCoolFailed currentToken e)
            (cool_current J currentToken w)"
      by (simp add: e cool_record_def log_write_def)
    from switch_cooled[OF assms this]
    show "map_of (strings (redis (final_world ?S))) (''token_cool_status:'' @ currentToken)
            = map_of (strings (redis w)) (''token_cool_status:'' @ currentToken)"
      and "\<exists>e. ErrorSetCoolFailed currentToken e \<in> set (logs (final_world ?S))"
      by (auto simp: cool_record_def)
    assume h: "fst (GetNextAvailableToken J currentToken (cool_current J currentToken w))
           = Some (nextToken, tenantURL, sessionID) \<and>
         nextToken \<noteq> ''No token'' \<and> nextToken \<noteq> ''No available token'' \<and>
         c ''token_lock'' = Some (VLock l) \<and> tokenLocks w l = Some True \<and>
         tokenLocks w nextToken \<noteq> Some True \<and>
         marshal_request J \<lparr>InProgress = True, LastRequestAt = clock w\<rparr> \<noteq> None \<and>
         \<not> set_fault (redis w) (''token_status:'' @ nextToken)"
    obtain w1 where sel: "GetNextAvailableToken J currentToken (cool_current J currentToken w)
          = (Some (nextToken, tenantURL, sessionID), w1)"
      using h by (cases "GetNextAvailableToken J currentToken (cool_current J currentToken w)") auto
    from h have ns: "nextToken \<noteq> ''No token''" "nextToken \<noteq> ''No available token''"
      and lk: "c ''token_lock'' = Some (VLock l)" "tokenLocks w l = Some True"
              "tokenLocks w nextToken \<noteq> Some True"
      and st: "marshal_request J \<lparr>InProgress = True, LastRequestAt = clock w\<rparr> \<noteq> None"
              "\<not> set_fault (redis w) (''token_status:'' @ nextToken)"
      by blast+
    from switch_completes[OF assms sel ns lk st]
    obtain w' where d: "?S = Done (True, c(''token'' \<mapsto> VString nextToken, ''tenant_url'' \<mapsto> VString tenantURL,
                           ''session_id'' \<mapsto> VString sessionID, ''token_lock'' \<mapsto> VLock nextToken,
                           ''retry_count'' \<mapsto> VInt (retryCount_of c + 1))) w'"
      and t: "tokenLocks w' = (tokenLocks w)(l \<mapsto> False, nextToken \<mapsto> True)"
      by blast
    show "result ?S = Some (True, c(''token'' \<mapsto> VString nextToken, ''tenant_url'' \<mapsto> VString tenantURL,
                           ''session_id'' \<mapsto> VString sessionID, ''token_lock'' \<mapsto> VLock nextToken,
                           ''retry_count'' \<mapsto> VInt (retryCount_of c + 1)))"
      by (simp only: d result.simps)
    show "tokenLocks (final_world ?S) = (tokenLocks w)(l \<mapsto> False, nextToken \<mapsto> True)"
      by (simp only: d final_world.simps t)
  }
qed


theorem cooldown_write_is_best_effort_witness:
  "demo_context ''token'' = Some (VString ''A'') \<and> retryCount_of demo_context < 3 \<and>
   marshal_cool demo_codec \<lparr>InCool = True, CoolEnd = time_Add (clock demo_world) (5 * Minute)\<rparr>
     = Some ''cool'' \<and>
   \<not> set_fault (redis demo_world) (''token_cool_status:'' @ ''A'') \<and>
   map_of (strings (redis (final_world (SwitchTokenAndRetry demo_codec demo_context 3 demo_world))))
     (''token_cool_status:'' @ ''A'') = Some (''cool'', 5 * Minute) \<and>
   set_fault (redis readonly_world) (''token_cool_status:'' @ ''A'') \<and>
   fst (GetNextAvailableToken demo_codec ''A'' (cool_current demo_codec ''A'' readonly_world))
     = Some (''B'', ''https://d2.api.augmentcode.com/'', ''sb'') \<and>
   demo_context ''token_lock'' = Some (VLock ''A'') \<and>
   tokenLocks readonly_world ''A'' = Some True \<and> tokenLocks readonly_world ''B'' = None \<and>
   map_of (strings (redis (final_world (SwitchTokenAndRetry demo_codec demo_context 3 readonly_world))))
     (''token_cool_status:'' @ ''A'') = None \<and>
   (\<exists>e. ErrorSetCoolFailed ''A'' e
      \<in> set (logs (final_world (SwitchTokenAndRetry demo_codec demo_context 3 readonly_world)))) \<and>
   result (SwitchTokenAndRetry demo_codec demo_context 3 readonly_world) =
     Some (True, demo_context(''token'' \<mapsto> VString ''B'',
                              ''tenant_url'' \<mapsto> VString ''https://d2.api.augmentcode.com/'',
                              ''session_id'' \<mapsto> VString ''sb'', ''token_lock'' \<mapsto> VLock ''B'',
                              ''retry_count'' \<mapsto> VInt 3)) \<and>
   tokenLocks (final_world (SwitchTokenAndRetry demo_codec demo_context 3 readonly_world)) =
     (tokenLocks readonly_world)(''A'' \<mapsto> False, ''B'' \<mapsto> True)"
proof -
  have t: "demo_context ''token'' = Some (VString ''A'')" by (simp add: demo_context_def)
  have rc: "retryCount_of demo_context = 2" by (simp add: retryCount_of_def demo_context_def)
  have r: "retryCount_of demo_context < 3" by (simp add: rc)
  have m: "marshal_cool demo_codec \<lparr>InCool = True, CoolEnd = time_Add (clock demo_world) (5 * Minute)\<rparr>
     = Some ''cool''" by (simp add: demo_codec_def)
  have m': "marshal_cool demo_codec \<lparr>InCool = True, CoolEnd = time_Add (clock readonly_world) (5 * Minute)\<rparr>
     = Some ''cool''" by (simp add: demo_codec_def)
  have nf: "\<not> set_fault (redis demo_world) (''token_cool_status:'' @ ''A'')"
    by (simp add: demo_world_def demo_store_def)
  have f: "set_fault (redis readonly_world) (''token_cool_status:'' @ ''A'')"
    by (simp add: readonly_world_def)
  have cc: "cool_current demo_codec ''A'' readonly_world
              = log_write (ErrorSetCoolFailed ''A'' (StoreError RedisFailure)) readonly_world"
    by (simp add: cool_current_def SetTokenCoolStatus_def RedisSet_def readonly_world_def demo_codec_def)
  have g: "fst (GetNextAvailableToken demo_codec ''A'' (cool_current demo_codec ''A'' readonly_world))
     = Some (''B'', ''https://d2.api.augmentcode.com/'', ''sb'')"
    unfolding cc by (simp add: eval_defs log_write_def)
  have l1: "demo_context ''token_lock'' = Some (VLock ''A'')" by (simp add: demo_context_def)
  have l2: "tokenLocks readonly_world ''A'' = Some True" by (simp add: readonly_world_def demo_world_def)
  have l3: "tokenLocks readonly_world ''B'' = None" by (simp add: readonly_world_def demo_world_def)
  have s1: "marshal_request demo_codec \<lparr>InProgress = True, LastRequestAt = clock readonly_world\<rparr> \<noteq> None"
    by (simp add: demo_codec_def)
  have s2: "\<not> set_fault (redis readonly_world) (''token_status:'' @ ''B'')"
    by (simp add: readonly_world_def)
  have z: "map_of (strings (redis readonly_world)) (''token_cool_status:'' @ ''A'') = None"
    by (simp add: readonly_world_def demo_store_def)
  note a = cooldown_write_is_best_effort[OF t r, of demo_codec demo_world "''cool''"]
  note b = cooldown_write_is_best_effort[OF t r, of demo_codec readonly_world "''cool''" "''B''"
             "''https://d2.api.augmentcode.com/''" "''sb''" "''A''"]
  from a m nf have A: "map_of (strings (redis (final_world (SwitchTokenAndRetry demo_codec demo_context 3 demo_world))))
     (''token_cool_status:'' @ ''A'') = Some (''cool'', 5 * Minute)" by blast
  from b f z have B1: "map_of (strings (redis (final_world (SwitchTokenAndRetry demo_codec demo_context 3 readonly_world))))
     (''token_cool_status:'' @ ''A'') = None" by simp
  from b f have B2: "\<exists>e. ErrorSetCoolFailed ''A'' e
      \<in> set (logs (final_world (SwitchTokenAndRetry demo_codec demo_context 3 readonly_world)))" by blast
  from b f g l1 l2 l3 s1 s2 have B3: "result (SwitchTokenAndRetry demo_codec demo_context 3 readonly_world) =
     Some (True, demo_context(''token'' \<mapsto> VString ''B'',
                              ''tenant_url'' \<mapsto> VString ''https://d2.api.augmentcode.com/'',
                              ''session_id'' \<mapsto> VString ''sb'', ''token_lock'' \<mapsto> VLock ''B'',
                              ''retry_count'' \<mapsto> VInt 3))"
    and B4: "tokenLocks (final_world (SwitchTokenAndRetry demo_codec demo_context 3 readonly_world)) =
     (tokenLocks readonly_world)(''A'' \<mapsto> False, ''B'' \<mapsto> True)"
    by (simp_all add: rc)
  show ?thesis
    using t r m nf A f g l1 l2 l3 B1 B2 B3 B4 by (intro conjI)
qed

text \<open>
  C8. Cooldown expiry. When the stored cooldown record of a token can be read and decoded
  and its \<open>CoolEnd\<close> lies before the current time, \<^verbatim>\<open>GetTokenCoolStatus\<close> returns it with
  \<open>InCool = False\<close> and no error, as it does (with the zero time) for a token without
  a record; and both selection functions return the same as in the world where the
  record is absent.
\<close>

theorem expired_cooldown_is_no_cooldown:
  assumes "RedisGet (redis w) (''token_cool_status:'' @ token) = Inr js"
    and "unmarshal_cool J js = Some cs" and "CoolEnd cs < clock w"
  shows "GetTokenCoolStatus J w token = Inr (cs\<lparr>InCool := False\<rparr>) \<and>
         GetTokenCoolStatus J (forget_cool token w) token = Inr \<lparr>InCool = False, CoolEnd = time_zero\<rparr> \<and>
         fst (select_token J exclude w) = fst (select_token J exclude (forget_cool token w)) \<and>
         fst (GetAvailableToken J w) = fst (GetAvailableToken J (forget_cool token w)) \<and>
         fst (GetNextAvailableToken J X w) = fst (GetNextAvailableToken J X (forget_cool token w))"
proof -
  let ?ss = "AList.delete (''token_cool_status:'' @ token) (strings (redis w))"
  have pl: "pool (with_strings ?ss w) = pool w"
    using pool_forget_cool[of token w] by (simp only: forget_cool_with_strings)
  have s: "fst (select_token J ex (forget_cool token w)) = fst (select_token J ex w)" for ex
  proof -
    have ra: "reads_agree J ex w (with_strings ?ss w)"
      using reads_agree_forget_cool[OF assms, of ex] by (simp only: forget_cool_with_strings)
    show ?thesis
      using select_token_with_strings[OF ra pl] by (simp only: forget_cool_with_strings)
  qed
  show ?thesis
    using expired_not_cooling[OF assms] absent_not_cooling[of J token w] s
    by (simp add: GetAvailableToken_def GetNextAvailableToken_def split_beta)
qed

theorem expired_cooldown_is_no_cooldown_witness:
  "RedisGet (redis expired_world) (''token_cool_status:'' @ ''A'') = Inr ''expired'' \<and>
   unmarshal_cool demo_codec ''expired'' = Some \<lparr>InCool = True, CoolEnd = 5 * Second\<rparr> \<and>
   CoolEnd \<lparr>InCool = True, CoolEnd = 5 * Second\<rparr> < clock expired_world \<and>
   GetTokenCoolStatus demo_codec expired_world ''A'' = Inr \<lparr>InCool = False, CoolEnd = 5 * Second\<rparr> \<and>
   GetTokenCoolStatus demo_codec (forget_cool ''A'' expired_world) ''A''
     = Inr \<lparr>InCool = False, CoolEnd = time_zero\<rparr> \<and>
   fst (select_token demo_codec None expired_world) =
     Chosen ''A'' ''https://d1.api.augmentcode.com/'' ''sa'' \<and>
   fst (select_token demo_codec None (forget_cool ''A'' expired_world)) =
     Chosen ''A'' ''https://d1.api.augmentcode.com/'' ''sa''"
proof -
  have 1: "RedisGet (redis expired_world) (''token_cool_status:'' @ ''A'') = Inr ''expired''"
    by (simp add: eval_defs)
  have 2: "unmarshal_cool demo_codec ''expired'' = Some \<lparr>InCool = True, CoolEnd = 5 * Second\<rparr>"
    by (simp add: demo_codec_def)
  have 3: "CoolEnd \<lparr>InCool = True, CoolEnd = 5 * Second\<rparr> < clock expired_world"
    by (simp add: eval_defs)
  have 4: "fst (select_token demo_codec None expired_world) =
     Chosen ''A'' ''https://d1.api.augmentcode.com/'' ''sa''"
    by (simp add: eval_defs)
  from expired_cooldown_is_no_cooldown[OF 1 2 3, where exclude=None and X="''B''"] 1 2 3 4 show ?thesis
    by simp
qed


text \<open>
  C10. Read failures. When the read of the store fails, for whatever reason,
  \<^verbatim>\<open>GetTokenRequestStatus\<close> returns the default status without an error,
  \<^verbatim>\<open>GetTokenCoolStatus\<close> returns \<open>InCool = False\<close> without an error, and the two usage
  getters return 0. So a credential whose four entries cannot be read, and that is
  neither disabled nor excluded and has a tenant endpoint, passes the filter as not
  cooling (the clock being at least three seconds after Go's zero time), and the
  selection picks a credential that is not in cooldown instead of reporting an error.
\<close>

theorem read_failure_looks_idle:
  "(isl (RedisGet (redis w) (''token_status:'' @ token)) \<longrightarrow>
      GetTokenRequestStatus J w token = Inr \<lparr>InProgress = False, LastRequestAt = time_zero\<rparr>) \<and>
   (isl (RedisGet (redis w) (''token_cool_status:'' @ token)) \<longrightarrow>
      GetTokenCoolStatus J w token = Inr \<lparr>InCool = False, CoolEnd = time_zero\<rparr>) \<and>
   (isl (RedisGet (redis w) (''token_usage_chat:'' @ token)) \<longrightarrow> getTokenChatUsageCount w token = 0) \<and>
   (isl (RedisGet (redis w) (''token_usage_agent:'' @ token)) \<longrightarrow> getTokenAgentUsageCount w token = 0) \<and>
   (isl (RedisGet (redis w) (''token_status:'' @ token)) \<and>
    isl (RedisGet (redis w) (''token_cool_status:'' @ token)) \<and>
    isl (RedisGet (redis w) (''token_usage_chat:'' @ token)) \<and>
    isl (RedisGet (redis w) (''token_usage_agent:'' @ token)) \<and>
    RedisHGet (redis w) (''token:'' @ token) ''status'' \<noteq> Inr ''disabled'' \<and>
    \<not> isl (RedisHGet (redis w) (''token:'' @ token) ''tenant_url'') \<and>
    exclude \<noteq> Some token \<and> 3 * Second \<le> clock w \<longrightarrow>
      eligible J exclude w (''token:'' @ token) \<and> \<not> cooling J w token \<and>
      (\<not> keys_fault (redis w) \<and> ''token:'' @ token \<in> set (pool w) \<longrightarrow>
         (\<exists>t u s. fst (select_token J exclude w) = Chosen t u s \<and> \<not> cooling J w t)))"
proof (intro conjI impI)
  assume "isl (RedisGet (redis w) (''token_status:'' @ token))"
  then show "GetTokenRequestStatus J w token = Inr \<lparr>InProgress = False, LastRequestAt = time_zero\<rparr>"
    by (auto simp: GetTokenRequestStatus_def isl_def)
next
  assume "isl (RedisGet (redis w) (''token_cool_status:'' @ token))"
  then show "GetTokenCoolStatus J w token = Inr \<lparr>InCool = False, CoolEnd = time_zero\<rparr>"
    by (auto simp: GetTokenCoolStatus_def isl_def)
next
  assume "isl (RedisGet (redis w) (''token_usage_chat:'' @ token))"
  then show "getTokenChatUsageCount w token = 0"
    by (auto simp: getTokenChatUsageCount_def isl_def)
next
  assume "isl (RedisGet (redis w) (''token_usage_agent:'' @ token))"
  then show "getTokenAgentUsageCount w token = 0"
    by (auto simp: getTokenAgentUsageCount_def isl_def)
next
  assume h: "isl (RedisGet (redis w) (''token_status:'' @ token)) \<and>
    isl (RedisGet (redis w) (''token_cool_status:'' @ token)) \<and>
    isl (RedisGet (redis w) (''token_usage_chat:'' @ token)) \<and>
    isl (RedisGet (redis w) (''token_usage_agent:'' @ token)) \<and>
    RedisHGet (redis w) (''token:'' @ token) ''status'' \<noteq> Inr ''disabled'' \<and>
    \<not> isl (RedisHGet (redis w) (''token:'' @ token) ''tenant_url'') \<and>
    exclude \<noteq> Some token \<and> 3 * Second \<le> clock w"
  then show e: "eligible J exclude w (''token:'' @ token)"
    by (auto simp: eligible_def GetTokenRequestStatus_def GetTokenCoolStatus_def
        getTokenChatUsageCount_def getTokenAgentUsageCount_def isl_def
        time_Sub_def time_zero_def maxDuration_def minDuration_def Second_def)
  from h show c: "\<not> cooling J w token"
    by (auto simp: cooling_def GetTokenCoolStatus_def isl_def)
  assume p: "\<not> keys_fault (redis w) \<and> ''token:'' @ token \<in> set (pool w)"
  then obtain t u s where r: "fst (select_token J exclude w) = Chosen t u s"
    using select_token_picks[of w "''token:'' @ token" J exclude] e by blast
  have "avail_keys J exclude w (pool w) \<noteq> []"
    using p e c by (auto simp: avail_keys_def filter_empty_conv)
  with select_token_Chosen[OF r] have "\<not> cooling J w t" by blast
  with r show "\<exists>t u s. fst (select_token J exclude w) = Chosen t u s \<and> \<not> cooling J w t"
    by blast
qed

theorem read_failure_looks_idle_witness:
  "RedisGet (redis blind_world) (''token_status:'' @ ''A'') = Inl RedisFailure \<and>
   RedisGet (redis blind_world) (''token_cool_status:'' @ ''A'') = Inl RedisFailure \<and>
   RedisGet (redis blind_world) (''token_usage_chat:'' @ ''A'') = Inl RedisFailure \<and>
   RedisGet (redis blind_world) (''token_usage_agent:'' @ ''A'') = Inl RedisFailure \<and>
   map_of (strings (redis blind_world)) ''token_status:A'' = Some (''busy'', Hour) \<and>
   RedisHGet (redis blind_world) (''token:'' @ ''A'') ''status'' = Inr ''active'' \<and>
   RedisHGet (redis blind_world) (''token:'' @ ''A'') ''tenant_url'' = Inr ''https://d1.api.augmentcode.com/'' \<and>
   3 * Second \<le> clock blind_world \<and>
   \<not> keys_fault (redis blind_world) \<and> ''token:'' @ ''A'' \<in> set (pool blind_world) \<and>
   GetTokenRequestStatus demo_codec blind_world ''A'' = Inr \<lparr>InProgress = False, LastRequestAt = time_zero\<rparr> \<and>
   GetTokenCoolStatus demo_codec blind_world ''A'' = Inr \<lparr>InCool = False, CoolEnd = time_zero\<rparr> \<and>
   getTokenChatUsageCount blind_world ''A'' = 0 \<and>
   getTokenAgentUsageCount blind_world ''A'' = 0 \<and>
   eligible demo_codec None blind_world (''token:'' @ ''A'') \<and>
   \<not> cooling demo_codec blind_world ''A'' \<and>
   (\<exists>t u s. fst (select_token demo_codec None blind_world) = Chosen t u s \<and>
              \<not> cooling demo_codec blind_world t)"
proof -
  have g: "RedisGet (redis blind_world) (''token_status:'' @ ''A'') = Inl RedisFailure"
    "RedisGet (redis blind_world) (''token_cool_status:'' @ ''A'') = Inl RedisFailure"
    "RedisGet (redis blind_world) (''token_usage_chat:'' @ ''A'') = Inl RedisFailure"
    "RedisGet (redis blind_world) (''token_usage_agent:'' @ ''A'') = Inl RedisFailure"
    by (simp_all add: RedisGet_def blind_world_def)
  have m: "map_of (strings (redis blind_world)) ''token_status:A'' = Some (''busy'', Hour)"
    by (simp add: blind_world_def)
  have h: "RedisHGet (redis blind_world) (''token:'' @ ''A'') ''status'' = Inr ''active''"
    "RedisHGet (redis blind_world) (''token:'' @ ''A'') ''tenant_url'' = Inr ''https://d1.api.augmentcode.com/''"
    by (simp_all add: eval_defs)
  have c: "3 * Second \<le> clock blind_world" by (simp add: eval_defs)
  have k: "\<not> keys_fault (redis blind_world)" by (simp add: eval_defs)
  have p: "''token:'' @ ''A'' \<in> set (pool blind_world)" by (simp add: eval_defs)
  have i: "isl (RedisGet (redis blind_world) (''token_status:'' @ ''A''))"
    "isl (RedisGet (redis blind_world) (''token_cool_status:'' @ ''A''))"
    "isl (RedisGet (redis blind_world) (''token_usage_chat:'' @ ''A''))"
    "isl (RedisGet (redis blind_world) (''token_usage_agent:'' @ ''A''))"
    using g by simp_all
  have d: "RedisHGet (redis blind_world) (''token:'' @ ''A'') ''status'' \<noteq> Inr ''disabled''"
    "\<not> isl (RedisHGet (redis blind_world) (''token:'' @ ''A'') ''tenant_url'')"
    using h by simp_all
  have x: "(None :: string option) \<noteq> Some ''A''" by simp
  note T = read_failure_looks_idle[of blind_world "''A''" demo_codec None]
  from T i have r1: "GetTokenRequestStatus demo_codec blind_world ''A'' = Inr \<lparr>InProgress = False, LastRequestAt = time_zero\<rparr>"
    and r2: "GetTokenCoolStatus demo_codec blind_world ''A'' = Inr \<lparr>InCool = False, CoolEnd = time_zero\<rparr>"
    and r3: "getTokenChatUsageCount blind_world ''A'' = 0"
    and r4: "getTokenAgentUsageCount blind_world ''A'' = 0"
    by blast+
  from T i d x c have r5: "eligible demo_codec None blind_world (''token:'' @ ''A'')"
    and r6: "\<not> cooling demo_codec blind_world ''A''"
    by blast+
  from T i d x c k p have r7: "\<exists>t u s. fst (select_token demo_codec None blind_world) = Chosen t u s \<and>
              \<not> cooling demo_codec blind_world t"
    by blast
  show ?thesis
    using g m h c k p r1 r2 r3 r4 r5 r6 r7 by (intro conjI)
qed

subsection \<open>The claim about the tenant endpoint validator\<close>

text \<open>
  C9, as the specification states it, fails: an endpoint that answers the probe with 200
  and an empty body (no marker in it) is not taken. With every endpoint answering so, the
  validator for the credential \<open>D\<close>, which has no endpoint on record and whose first
  candidate is \<^verbatim>\<open>d20\<close>, reports that no valid endpoint was found and writes nothing.
\<close>

theorem empty_reply_counterexample:
  "upstream silent_world (d_url 20 @ ''chat-stream'') = Response 200 [] False \<and>
   RedisHGet (redis silent_world) ''token:D'' ''tenant_url'' = Inl RedisNil \<and>
   hd (candidate_urls (RedisHGet (redis silent_world) ''token:D'' ''tenant_url'')) = d_url 20 \<and>
   CheckTokenTenantURL demo_config ''D'' ''sd'' silent_world = (Inl ErrNoValidTenant, silent_world)"
proof -
  have "upstream silent_world = (\<lambda>u. Response 200 [] False)" by (simp add: silent_world_def)
  then have c: "CheckTokenTenantURL demo_config ''D'' ''sd'' silent_world = (Inl ErrNoValidTenant, silent_world)"
    by (simp add: CheckTokenTenantURL_def probe_silent)
  have r: "RedisHGet (redis silent_world) ''token:D'' ''tenant_url'' = Inl RedisNil"
    by (simp add: silent_world_def eval_defs)
  have h: "hd (candidate_urls (RedisHGet (redis silent_world) ''token:D'' ''tenant_url'')) = d_url 20"
    unfolding r by (rule candidates_absent)
  have u: "upstream silent_world (d_url 20 @ ''chat-stream'') = Response 200 [] False"
    by (simp add: silent_world_def)
  show ?thesis
    by (rule conjI[OF u conjI[OF r conjI[OF h c]]])
qed

text \<open>
  C9, amended. When the probe of a candidate gets a response with status 200 or 402 whose
  first read of the body yields at least one byte and no error, and (in strict mode,
  \<^verbatim>\<open>RemoveFree = "true"\<close>) the first 1024 bytes read hold no subscription marker, and
  the write of the endpoint to the store does not fail, then the validator returns that
  endpoint without an error, whatever candidates follow (it stops probing), the store
  holds the endpoint as the credential's \<^verbatim>\<open>tenant_url\<close>, and, unless the second write
  fails, the status \<^verbatim>\<open>active\<close>.
\<close>

theorem valid_reply_is_persisted:
  assumes "upstream w (tenantURL @ ''chat-stream'') = Response statusCode body readErr"
    and "statusCode = 200 \<or> statusCode = 402"
    and "\<not> readErr" and "body \<noteq> []"
    and "RemoveFree cfg = ''true'' \<longrightarrow> \<not> subscription_inactive (take 1024 body)"
    and "\<not> hset_fault (redis w) tokenKey ''tenant_url''"
  shows "fst (probe_urls cfg tokenKey token sessionID (tenantURL # rest) w) = Inr tenantURL \<and>
         probe_urls cfg tokenKey token sessionID (tenantURL # rest) w =
           probe_urls cfg tokenKey token sessionID [tenantURL] w \<and>
         stored_field (redis (snd (probe_urls cfg tokenKey token sessionID (tenantURL # rest) w)))
           tokenKey ''tenant_url'' = Some tenantURL \<and>
         (\<not> hset_fault (redis w) tokenKey ''status'' \<longrightarrow>
            stored_field (redis (snd (probe_urls cfg tokenKey token sessionID (tenantURL # rest) w)))
              tokenKey ''status'' = Some ''active'')"
  using assms
  by (auto simp: RedisHSet_def stored_field_def log_write_def update_conv' Let_def split: option.splits)

theorem valid_reply_is_persisted_witness:
  "upstream healthy_world (''https://d20.api.augmentcode.com/'' @ ''chat-stream'')
     = Response 200 ''data: ok'' False \<and>
   RemoveFree demo_config = ''true'' \<and> \<not> subscription_inactive (take 1024 ''data: ok'') \<and>
   \<not> hset_fault (redis healthy_world) ''token:D'' ''tenant_url'' \<and>
   \<not> hset_fault (redis healthy_world) ''token:D'' ''status'' \<and>
   stored_field (redis healthy_world) ''token:D'' ''tenant_url'' = None \<and>
   fst (probe_urls demo_config ''token:D'' ''D'' ''sd''
          [''https://d20.api.augmentcode.com/'', ''https://d19.api.augmentcode.com/''] healthy_world)
     = Inr ''https://d20.api.augmentcode.com/'' \<and>
   stored_field (redis (snd (probe_urls demo_config ''token:D'' ''D'' ''sd''
          [''https://d20.api.augmentcode.com/'', ''https://d19.api.augmentcode.com/''] healthy_world)))
     ''token:D'' ''tenant_url'' = Some ''https://d20.api.augmentcode.com/'' \<and>
   stored_field (redis (snd (probe_urls demo_config ''token:D'' ''D'' ''sd''
          [''https://d20.api.augmentcode.com/'', ''https://d19.api.augmentcode.com/''] healthy_world)))
     ''token:D'' ''status'' = Some ''active''"
proof -
  have 1: "upstream healthy_world (''https://d20.api.augmentcode.com/'' @ ''chat-stream'')
     = Response 200 ''data: ok'' False" by (simp add: healthy_world_def)
  have 2: "(200::nat) = 200 \<or> (200::nat) = 402" by simp
  have 3: "\<not> False" by simp
  have 4: "''data: ok'' \<noteq> []" by simp
  have 5: "\<not> subscription_inactive (take 1024 ''data: ok'')"
    by (simp add: subscription_inactive_def sublist_code prefix_code)
  have c5: "RemoveFree demo_config = ''true'' \<longrightarrow> \<not> subscription_inactive (take 1024 ''data: ok'')"
    using 5 by simp
  have 6: "\<not> hset_fault (redis healthy_world) ''token:D'' ''tenant_url''"
    by (simp add: healthy_world_def demo_world_def demo_store_def)
  have 7: "\<not> hset_fault (redis healthy_world) ''token:D'' ''status''"
    by (simp add: healthy_world_def demo_world_def demo_store_def)
  have 8: "stored_field (redis healthy_world) ''token:D'' ''tenant_url'' = None"
    by (simp add: stored_field_def healthy_world_def demo_world_def demo_store_def)
  have 9: "RemoveFree demo_config = ''true''" by (simp add: demo_config_def)
  note T = valid_reply_is_persisted[OF 1 2 3 4 c5 6, of "''D''" "''sd''" "[''https://d19.api.augmentcode.com/'']"]
  from T 7 have r1: "fst (probe_urls demo_config ''token:D'' ''D'' ''sd''
          [''https://d20.api.augmentcode.com/'', ''https://d19.api.augmentcode.com/''] healthy_world)
     = Inr ''https://d20.api.augmentcode.com/''"
    and r2: "stored_field (redis (snd (probe_urls demo_config ''token:D'' ''D'' ''sd''
          [''https://d20.api.augmentcode.com/'', ''https://d19.api.augmentcode.com/''] healthy_world)))
     ''token:D'' ''tenant_url'' = Some ''https://d20.api.augmentcode.com/''"
    and r3: "stored_field (redis (snd (probe_urls demo_config ''token:D'' ''D'' ''sd''
          [''https://d20.api.augmentcode.com/'', ''https://d19.api.augmentcode.com/''] healthy_world)))
     ''token:D'' ''status'' = Some ''active''"
    by blast+
  show ?thesis
    using 1 9 5 6 7 8 r1 r2 r3 by (intro conjI)
qed

end
